theory Spec2Isabelle
  imports Main "HOL-Library.AList"
begin

section \<open>rollup-plugin-rebase: the resolver and the emitter\<close>

text \<open>
  The plugin of \<^verbatim>\<open>src/index.js\<close> keeps three objects (\<^verbatim>\<open>wrappers\<close>, \<^verbatim>\<open>assets\<close>,
  \<^verbatim>\<open>files\<close>) and the variable \<^verbatim>\<open>root\<close>. Its hooks \<^verbatim>\<open>resolveId\<close> and \<^verbatim>\<open>generateBundle\<close>
  are functions from the state before to the result and the state after. One call of
  \<^verbatim>\<open>resolveId\<close> is one step: the interleaving of several calls at their \<^verbatim>\<open>await\<close>s is not
  modelled.

  The own properties of a JavaScript object are an association list in insertion order,
  read with \<open>map_of\<close> and written with \<open>AList.update\<close> (an existing key keeps its place, a
  new key is appended, as \<^verbatim>\<open>Object.keys\<close> lists string keys). The three objects are
  literals \<^verbatim>\<open>{}\<close>, so a read also finds what \<^verbatim>\<open>Object.prototype\<close> defines: see
  \<open>non_null\<close> below. The keys written are results of \<^verbatim>\<open>path.resolve\<close> and of
  \<^verbatim>\<open>path.join\<close> on the absolute \<^verbatim>\<open>root\<close>, so every write makes or replaces an own property.
\<close>

subsection \<open>Errors, results, the file system\<close>

text \<open>
  What can be thrown: an \<^verbatim>\<open>Error\<close> with its name and message (the errors of the file
  system and the one \<^verbatim>\<open>generateBundle\<close> makes); an error of Node's own with name, code and
  message; and a value thrown by the stylesheet pipeline, known by the string it renders to.
\<close>

datatype js_error =
  JsError string string
  | NodeError string string string
  | Thrown string

text \<open>
  The rendering of an error inside a template literal, \<^verbatim>\<open>`${error}`\<close>:
  \<^verbatim>\<open>Error.prototype.toString\<close> gives the name, a colon and the message, or the one of the two
  that is not empty; Node's own errors put their code in brackets after the name.
\<close>

fun error_toString :: "js_error \<Rightarrow> string" where
  "error_toString (JsError name msg) =
     (if name = [] then msg else if msg = [] then name else name @ '': '' @ msg)"
| "error_toString (NodeError name code msg) = name @ '' ['' @ code @ '']: '' @ msg"
| "error_toString (Thrown rendering) = rendering"

text \<open>What Node's \<^verbatim>\<open>path\<close> functions throw when the named argument is not a string.\<close>

definition path_arg_error :: "string \<Rightarrow> string \<Rightarrow> js_error" where
  "path_arg_error arg received =
     NodeError ''TypeError'' ''ERR_INVALID_ARG_TYPE''
       (''The '' @ [CHR 0x22] @ arg @ [CHR 0x22] @
        '' argument must be of type string. Received '' @ received)"

definition enoent :: "string \<Rightarrow> string \<Rightarrow> js_error" where
  "enoent syscall p =
     JsError ''Error''
       (''ENOENT: no such file or directory, '' @ syscall @ '' '' @ [CHR 0x27] @ p @ [CHR 0x27])"

text \<open>The file system: the bytes of each file, by path. Directories and permissions are
  not modelled; the only failure of a read is a missing file.\<close>

type_synonym fs = "string \<Rightarrow> string option"

definition pathExists :: "fs \<Rightarrow> string \<Rightarrow> bool" where
  "pathExists fs p \<longleftrightarrow> fs p \<noteq> None"

definition readFile :: "fs \<Rightarrow> string \<Rightarrow> js_error + string" where
  "readFile fs p = (case fs p of None \<Rightarrow> Inl (enoent ''open'' p) | Some bytes \<Rightarrow> Inr bytes)"

definition outputFile :: "fs \<Rightarrow> string \<Rightarrow> string \<Rightarrow> fs" where
  "outputFile fs p bytes = fs(p \<mapsto> bytes)"

definition copy :: "fs \<Rightarrow> string \<Rightarrow> string \<Rightarrow> js_error + fs" where
  "copy fs src dest =
     (case fs src of None \<Rightarrow> Inl (enoent ''lstat'' src) | Some bytes \<Rightarrow> Inr (fs(dest \<mapsto> bytes)))"

subsection \<open>The collaborators the plugin calls\<close>

text \<open>\<^verbatim>\<open>styleParser\<close> (lines 16-22): the three parser modules, \<open>None\<close> for \<^verbatim>\<open>null\<close>. It
  is read at results of \<^verbatim>\<open>path.extname\<close> only, which are empty or start with a dot: its own
  keys decide \<^verbatim>\<open>fileExt in styleParser\<close>.\<close>

datatype parser = SugarSS | Scss | Sass

definition styleParser :: "(string \<times> parser option) list" where
  "styleParser =
     [(''.pcss'', None), (''.css'', None), (''.sss'', Some SugarSS),
      (''.scss'', Some Scss), (''.sass'', Some Sass)]"

text \<open>
  Node's \<^verbatim>\<open>path\<close> module, the digest of \<^verbatim>\<open>asset-hash\<close> and the postcss pipeline of
  \<^verbatim>\<open>getPostCssPlugins\<close> are not code of the plugin: they are parameters. The pipeline gets
  the parser, \<^verbatim>\<open>useHash\<close>, \<^verbatim>\<open>keepName\<close>, \<^verbatim>\<open>from\<close>, \<^verbatim>\<open>to\<close> and the text; it may read and
  copy files of its own, so it returns a file system beside the css and the map. What a
  failed run of the pipeline had written by then is not modelled.
\<close>

record host =
  path_extname :: "string \<Rightarrow> string"
  path_basename :: "string \<Rightarrow> string \<Rightarrow> string"
  path_dirname :: "string \<Rightarrow> string"
  path_resolve :: "string list \<Rightarrow> string"
  path_join :: "string list \<Rightarrow> string"
  path_relative :: "string \<Rightarrow> string \<Rightarrow> string"
  hash_bytes :: "string \<Rightarrow> string"
  postcss_process ::
    "parser option \<Rightarrow> bool \<Rightarrow> bool \<Rightarrow> string \<Rightarrow> string \<Rightarrow> string \<Rightarrow> fs
       \<Rightarrow> js_error + ((string \<times> string) \<times> fs)"

text \<open>\<^verbatim>\<open>getHash(fileSource)\<close>: the digest of the file's bytes.\<close>

definition getHash :: "host \<Rightarrow> fs \<Rightarrow> string \<Rightarrow> js_error + string" where
  "getHash h fs p =
     (case fs p of None \<Rightarrow> Inl (enoent ''open'' p) | Some bytes \<Rightarrow> Inr (hash_bytes h bytes))"

text \<open>The options of \<^verbatim>\<open>rebase(options)\<close> (lines 59-68); \<open>filter_fn\<close> is the predicate
  that \<^verbatim>\<open>createFilter(include, exclude)\<close> returns.\<close>

record options =
  filter_fn :: "string \<Rightarrow> bool"
  verbose :: bool
  keepName :: bool
  skipHash :: bool
  assetFolder :: string

subsection \<open>The state of one plugin instance\<close>

text \<open>Lines 69-73. \<open>hashLog\<close> is not a variable of the source: it lists the calls of
  \<^verbatim>\<open>getHash\<close> in order, so that the hash computations of a build can be counted.\<close>

record plugin_state =
  wrappers :: "(string \<times> string) list"
  assets :: "(string \<times> bool) list"
  files :: "(string \<times> string) list"
  root :: "string option"
  hashLog :: "string list"

definition init_state :: plugin_state where
  "init_state = \<lparr>wrappers = [], assets = [], files = [], root = None, hashLog = []\<rparr>"

subsection \<open>resolveId\<close>

datatype resolve_result = NotHandled | Excluded | Handled string

text \<open>\<^verbatim>\<open>/^\.(json|mjs|js|jsx|ts|tsx)$/\<close> (line 14).\<close>

definition scriptExtensions :: "string \<Rightarrow> bool" where
  "scriptExtensions ext \<longleftrightarrow>
     ext = ''.json'' \<or> ext = ''.mjs'' \<or> ext = ''.js'' \<or> ext = ''.jsx'' \<or> ext = ''.ts'' \<or>
     ext = ''.tsx''"

text \<open>\<^verbatim>\<open>.replace(/\\/g, "/")\<close> (line 164) and \<^verbatim>\<open>.replace("\\", "/")\<close> (line 77): every
  backslash, and the first one only.\<close>

definition replace_all_backslash :: "string \<Rightarrow> string" where
  "replace_all_backslash s = map (\<lambda>c. if c = CHR 0x5C then CHR ''/'' else c) s"

fun replace_first_backslash :: "string \<Rightarrow> string" where
  "replace_first_backslash [] = []"
| "replace_first_backslash (c # cs) =
     (if c = CHR 0x5C then CHR ''/'' # cs else c # replace_first_backslash cs)"

text \<open>
  \<^verbatim>\<open>obj[key] != null\<close> on an object literal: the key is an own property (every value the
  plugin writes is \<^verbatim>\<open>true\<close> or a string), or \<^verbatim>\<open>Object.prototype\<close> defines it; all it
  defines are functions, but for \<^verbatim>\<open>__proto__\<close>, which reads as the prototype itself.
\<close>

definition object_prototype_names :: "string list" where
  "object_prototype_names =
     [''constructor'', ''__defineGetter__'', ''__defineSetter__'', ''hasOwnProperty'',
      ''__lookupGetter__'', ''__lookupSetter__'', ''isPrototypeOf'', ''propertyIsEnumerable'',
      ''toString'', ''valueOf'', ''__proto__'', ''toLocaleString'']"

definition non_null :: "(string \<times> 'a) list \<Rightarrow> string \<Rightarrow> bool" where
  "non_null obj key \<longleftrightarrow> map_of obj key \<noteq> None \<or> key \<in> set object_prototype_names"

text \<open>\<^verbatim>\<open>!importer\<close>: no importer, or the empty string.\<close>

definition no_importer :: "string option \<Rightarrow> bool" where
  "no_importer importer \<longleftrightarrow> (case importer of None \<Rightarrow> True | Some i \<Rightarrow> i = [])"

text \<open>Lines 158-183, from the target name on: the entry of \<^verbatim>\<open>files\<close>, the asset id, the
  wrapper id, the entries of \<^verbatim>\<open>assets\<close> and \<^verbatim>\<open>wrappers\<close>. \<^verbatim>\<open>path.join\<close> throws when
  \<^verbatim>\<open>root\<close> is still \<^verbatim>\<open>null\<close>; the entry of \<^verbatim>\<open>files\<close> is written by then.\<close>

definition register ::
  "host \<Rightarrow> options \<Rightarrow> string \<Rightarrow> string \<Rightarrow> plugin_state
     \<Rightarrow> (js_error + resolve_result) \<times> plugin_state" where
  "register h opts fileSource fileTarget st =
     (let st1 = st\<lparr>files :=
                  AList.update fileSource (path_join h [assetFolder opts, fileTarget]) (files st)\<rparr>
      in case root st of
           None \<Rightarrow> (Inl (path_arg_error ''path'' ''null''), st1)
         | Some r \<Rightarrow>
             (let assetId = replace_all_backslash (path_join h [r, assetFolder opts, fileTarget]);
                  resolvedId = assetId @ ''.js''
              in (Inr (Handled resolvedId),
                  st1\<lparr>assets := AList.update assetId True (assets st1),
                      wrappers := AList.update resolvedId assetId (wrappers st1)\<rparr>)))"

text \<open>Lines 102-105: the entry point sets \<^verbatim>\<open>root\<close> and is left to the host.\<close>

definition entry_point ::
  "host \<Rightarrow> string \<Rightarrow> plugin_state \<Rightarrow> (js_error + resolve_result) \<times> plugin_state" where
  "entry_point h importee st =
     (Inr NotHandled, st\<lparr>root := Some (path_dirname h (path_resolve h [importee]))\<rparr>)"

text \<open>The locals \<^verbatim>\<open>fileExt\<close> (lines 116, 121-124: \<^verbatim>\<open>.sss\<close> is renamed),
  \<^verbatim>\<open>fileSource\<close> (line 128) and \<^verbatim>\<open>fileName\<close> (line 145).\<close>

definition fileExt_of :: "host \<Rightarrow> string \<Rightarrow> string" where
  "fileExt_of h importee =
     (if path_extname h importee = ''.sss'' then ''.pcss'' else path_extname h importee)"

definition fileSource_of :: "host \<Rightarrow> string \<Rightarrow> string \<Rightarrow> string" where
  "fileSource_of h imp importee = path_resolve h [path_dirname h imp, importee]"

definition fileName_of :: "host \<Rightarrow> string \<Rightarrow> string" where
  "fileName_of h importee = path_basename h importee (fileExt_of h importee)"

text \<open>Lines 99-184.\<close>

definition resolveId ::
  "host \<Rightarrow> options \<Rightarrow> fs \<Rightarrow> string \<Rightarrow> string option \<Rightarrow> plugin_state
     \<Rightarrow> (js_error + resolve_result) \<times> plugin_state" where
  "resolveId h opts fs importee importer st =
     (case importer of
        None \<Rightarrow> entry_point h importee st
      | Some imp \<Rightarrow>
          if imp = [] then entry_point h importee st
          else if non_null (assets st) importee then (Inr Excluded, st)
          else if path_extname h importee = [] \<or> scriptExtensions (path_extname h importee)
          then (Inr NotHandled, st)
          else if \<not> filter_fn opts (fileSource_of h imp importee) then (Inr NotHandled, st)
          else if \<not> pathExists fs (fileSource_of h imp importee) then (Inr NotHandled, st)
          else if skipHash opts then
            register h opts (fileSource_of h imp importee)
              (fileName_of h importee @ fileExt_of h importee) st
          else
            (case getHash h fs (fileSource_of h imp importee) of
               Inl e \<Rightarrow> (Inl e, st\<lparr>hashLog := hashLog st @ [fileSource_of h imp importee]\<rparr>)
             | Inr fileHash \<Rightarrow>
                 register h opts (fileSource_of h imp importee)
                   (if keepName opts
                    then fileName_of h importee @ ''~'' @ fileHash @ fileExt_of h importee
                    else fileHash @ fileExt_of h importee)
                   (st\<lparr>hashLog := hashLog st @ [fileSource_of h imp importee]\<rparr>)))"

text \<open>A build is a sequence of calls; each call sees the file system of its moment.\<close>

type_synonym call = "fs \<times> string \<times> string option"

fun resolveAll :: "host \<Rightarrow> options \<Rightarrow> call list \<Rightarrow> plugin_state \<Rightarrow> plugin_state" where
  "resolveAll h opts [] st = st"
| "resolveAll h opts ((fs, importee, importer) # cs) st =
     resolveAll h opts cs (snd (resolveId h opts fs importee importer st))"

subsection \<open>generateBundle\<close>

text \<open>\<^verbatim>\<open>processStyle\<close> (lines 36-56). The two \<^verbatim>\<open>outputFile\<close> calls write different
  paths, so their order does not matter.\<close>

definition processStyle ::
  "host \<Rightarrow> string \<Rightarrow> string \<Rightarrow> bool \<Rightarrow> bool \<Rightarrow> fs \<Rightarrow> js_error + fs" where
  "processStyle h ident fileDest keep skip fs =
     (case readFile fs ident of
        Inl e \<Rightarrow> Inl e
      | Inr content \<Rightarrow>
          (let parser = (case map_of styleParser (path_extname h ident) of
                           Some p \<Rightarrow> p | None \<Rightarrow> None)
           in case postcss_process h parser (\<not> skip) keep ident fileDest content fs of
                Inl e \<Rightarrow> Inl e
              | Inr ((css, srcmap), fs1) \<Rightarrow>
                  Inr (outputFile (outputFile fs1 fileDest css) (fileDest @ ''.map'') srcmap)))"

text \<open>\<^verbatim>\<open>rootRelative\<close> (lines 75-78); \<^verbatim>\<open>path.relative\<close> throws on a \<^verbatim>\<open>null\<close> root.\<close>

definition rootRelative :: "host \<Rightarrow> plugin_state \<Rightarrow> string \<Rightarrow> js_error + string" where
  "rootRelative h st f =
     (case root st of
        None \<Rightarrow> Inl (path_arg_error ''from'' ''null'')
      | Some r \<Rightarrow> Inr (replace_first_backslash (path_relative h r f)))"

text \<open>The world of the emitter: the file system and the lines of the console.\<close>

type_synonym world = "fs \<times> string list"

text \<open>The \<^verbatim>\<open>console.log\<close> of lines 213-217 and 221-225, when \<^verbatim>\<open>verbose\<close> is set.\<close>

definition logAction ::
  "host \<Rightarrow> options \<Rightarrow> plugin_state \<Rightarrow> string \<Rightarrow> string \<Rightarrow> string \<Rightarrow> string list
     \<Rightarrow> js_error + string list" where
  "logAction h opts st verb fileSource fileDest console =
     (if verbose opts then
        (case rootRelative h st fileSource of
           Inl e \<Rightarrow> Inl e
         | Inr a \<Rightarrow>
             (case rootRelative h st fileDest of
                Inl e \<Rightarrow> Inl e
              | Inr b \<Rightarrow> Inr (console @ [verb @ '' '' @ a @ '' => '' @ b @ ''...''])))
      else Inr console)"

text \<open>
  The callback of lines 206-229, for one entry of \<^verbatim>\<open>files\<close>, in its two parts: what runs
  at once when \<^verbatim>\<open>map\<close> calls it, up to the first \<^verbatim>\<open>await\<close> (the log line), and the
  operation it then awaits (\<^verbatim>\<open>processStyle\<close> or \<^verbatim>\<open>fs.copy\<close>).
\<close>

definition announce ::
  "host \<Rightarrow> options \<Rightarrow> plugin_state \<Rightarrow> string \<Rightarrow> string \<times> string \<Rightarrow> string list
     \<Rightarrow> js_error + string list" where
  "announce h opts st outFolder entry console =
     (let fileSource = fst entry;
          fileDest = path_join h [outFolder, snd entry];
          fileExt = path_extname h fileSource
      in if map_of styleParser fileExt \<noteq> None
         then logAction h opts st ''Processing'' fileSource fileDest console
         else logAction h opts st ''Copying'' fileSource fileDest console)"

definition operate ::
  "host \<Rightarrow> options \<Rightarrow> string \<Rightarrow> string \<times> string \<Rightarrow> fs \<Rightarrow> js_error + fs" where
  "operate h opts outFolder entry fs =
     (let fileSource = fst entry;
          fileDest = path_join h [outFolder, snd entry];
          fileExt = path_extname h fileSource
      in if map_of styleParser fileExt \<noteq> None
         then processStyle h fileSource fileDest (keepName opts) (skipHash opts) fs
         else copy fs fileSource fileDest)"

text \<open>One callback from its first line to its last, with no other running in between.\<close>

definition emitFile ::
  "host \<Rightarrow> options \<Rightarrow> plugin_state \<Rightarrow> string \<Rightarrow> string \<times> string \<Rightarrow> world
     \<Rightarrow> js_error option \<times> world" where
  "emitFile h opts st outFolder entry w =
     (case announce h opts st outFolder entry (snd w) of
        Inl e \<Rightarrow> (Some e, w)
      | Inr console \<Rightarrow>
          (case operate h opts outFolder entry (fst w) of
             Inl e \<Rightarrow> (Some e, (fst w, console))
           | Inr fs1 \<Rightarrow> (None, (fs1, console))))"

text \<open>
  \<^verbatim>\<open>Promise.all\<close> over the entries (lines 205-230). \<^verbatim>\<open>map\<close> calls every callback in the
  order of \<^verbatim>\<open>Object.keys(files)\<close>: each writes its log line and starts its operation, or
  throws at once. The operations then complete in an order that the event loop decides,
  \<open>order\<close> below; each is taken as one step at the moment it completes. A failure cancels
  nothing: the other operations still run. \<^verbatim>\<open>Promise.all\<close> rejects with the first failure in
  time: that of the first callback that threw at once, if there is one, else that of the
  first operation to fail in \<open>order\<close>.
\<close>

definition first_error :: "js_error option \<Rightarrow> js_error option \<Rightarrow> js_error option" where
  "first_error a b = (case a of Some e \<Rightarrow> Some e | None \<Rightarrow> b)"

fun announceAll ::
  "host \<Rightarrow> options \<Rightarrow> plugin_state \<Rightarrow> string \<Rightarrow> (string \<times> string) list \<Rightarrow> string list
     \<Rightarrow> js_error option \<times> string list" where
  "announceAll h opts st outFolder [] console = (None, console)"
| "announceAll h opts st outFolder (entry # entries) console =
     (case announce h opts st outFolder entry console of
        Inl e \<Rightarrow> (Some e, snd (announceAll h opts st outFolder entries console))
      | Inr console1 \<Rightarrow> announceAll h opts st outFolder entries console1)"

text \<open>The callbacks that did not throw at once have their operation started.\<close>

definition started ::
  "host \<Rightarrow> options \<Rightarrow> plugin_state \<Rightarrow> string \<Rightarrow> string \<times> string \<Rightarrow> bool" where
  "started h opts st outFolder entry \<longleftrightarrow>
     (case announce h opts st outFolder entry [] of Inl e \<Rightarrow> False | Inr console \<Rightarrow> True)"

fun operateAll ::
  "host \<Rightarrow> options \<Rightarrow> string \<Rightarrow> (string \<times> string) list \<Rightarrow> fs \<Rightarrow> js_error option \<times> fs" where
  "operateAll h opts outFolder [] fs = (None, fs)"
| "operateAll h opts outFolder (entry # entries) fs =
     (case operate h opts outFolder entry fs of
        Inl e \<Rightarrow> (Some e, snd (operateAll h opts outFolder entries fs))
      | Inr fs1 \<Rightarrow> operateAll h opts outFolder entries fs1)"

text \<open>The argument of \<^verbatim>\<open>generateBundle\<close>, with its fields \<^verbatim>\<open>file\<close> and \<^verbatim>\<open>dir\<close>, and
  \<^verbatim>\<open>dir || path.dirname(file)\<close> (line 201).\<close>

record output_options =
  out_file :: "string option"
  out_dir :: "string option"

definition outputFolder :: "host \<Rightarrow> output_options \<Rightarrow> js_error + string" where
  "outputFolder h out =
     (let fromFile = (case out_file out of
                        None \<Rightarrow> Inl (path_arg_error ''path'' ''undefined'')
                      | Some f \<Rightarrow> Inr (path_dirname h f))
      in case out_dir out of
           None \<Rightarrow> fromFile
         | Some d \<Rightarrow> if d = [] then fromFile else Inr d)"

text \<open>
  Lines 200-234: the \<^verbatim>\<open>catch\<close> wraps the failure that \<^verbatim>\<open>Promise.all\<close> rejected with.
  \<open>order\<close> lists the entries of \<^verbatim>\<open>files\<close> in the order in which their operations complete.
  The world returned is the one in which every started operation has completed.
\<close>

definition generateBundle ::
  "host \<Rightarrow> options \<Rightarrow> plugin_state \<Rightarrow> output_options \<Rightarrow> (string \<times> string) list \<Rightarrow> world
     \<Rightarrow> js_error option \<times> world" where
  "generateBundle h opts st out order w =
     (case outputFolder h out of
        Inl e \<Rightarrow> (Some e, w)
      | Inr outFolder \<Rightarrow>
          (let announced = announceAll h opts st outFolder (files st) (snd w);
               operated = operateAll h opts outFolder
                            (filter (started h opts st outFolder) order) (fst w)
           in case first_error (fst announced) (fst operated) of
                Some e \<Rightarrow>
                  (Some (JsError ''Error'' (''Error while copying files: '' @ error_toString e)),
                   (snd operated, snd announced))
              | None \<Rightarrow> (None, (snd operated, snd announced))))"

text \<open>What \<open>order\<close> has to be: every entry of \<^verbatim>\<open>files\<close>, once.\<close>

definition completion_order :: "plugin_state \<Rightarrow> (string \<times> string) list \<Rightarrow> bool" where
  "completion_order st order \<longleftrightarrow> distinct order \<and> set order = set (files st)"

subsection \<open>What the path functions and the digest return\<close>

text \<open>
  Facts of Node's \<^verbatim>\<open>path\<close> that some properties below assume of the host: an extension
  is empty or a dot followed by characters that are neither a dot nor a separator; a base
  name has no separator; and two path segments joined to the same folder give two paths.
  A digest of \<^verbatim>\<open>asset-hash\<close> is a non-empty string of letters and digits.
\<close>

definition segment :: "string \<Rightarrow> bool" where
  "segment n \<longleftrightarrow> n \<noteq> [] \<and> CHR ''/'' \<notin> set n \<and> n \<noteq> ''.'' \<and> n \<noteq> ''..''"

definition extname_shaped :: "host \<Rightarrow> bool" where
  "extname_shaped h \<longleftrightarrow>
     (\<forall>p. path_extname h p = [] \<or>
          (\<exists>x. path_extname h p = CHR ''.'' # x \<and> CHR ''.'' \<notin> set x \<and> CHR ''/'' \<notin> set x))"

definition basename_plain :: "host \<Rightarrow> bool" where
  "basename_plain h \<longleftrightarrow> (\<forall>p e. CHR ''/'' \<notin> set (path_basename h p e))"

definition join_injective :: "host \<Rightarrow> string \<Rightarrow> bool" where
  "join_injective h folder \<longleftrightarrow>
     (\<forall>a b. segment a \<and> segment b \<and> path_join h [folder, a] = path_join h [folder, b] \<longrightarrow>
            a = b)"

definition digest_plain :: "string \<Rightarrow> bool" where
  "digest_plain d \<longleftrightarrow>
     d \<noteq> [] \<and> CHR ''.'' \<notin> set d \<and> CHR ''~'' \<notin> set d \<and> CHR ''/'' \<notin> set d"

text \<open>The name that lines 153-155 build from a base name, a digest and an extension.\<close>

definition hashed_name :: "bool \<Rightarrow> string \<Rightarrow> string \<Rightarrow> string \<Rightarrow> string" where
  "hashed_name keep n d x =
     (if keep then n @ ''~'' @ d @ CHR ''.'' # x else d @ CHR ''.'' # x)"

subsection \<open>A POSIX host for the examples\<close>

text \<open>
  The examples below run the hooks on plain POSIX paths. These functions follow Node's
  \<^verbatim>\<open>path.posix\<close> on such paths (no trailing separator); the digest and the stylesheet
  pipeline are stand-ins: a fixed table of digests, and a pipeline that returns the text as
  it is with an empty map.
\<close>

fun segments :: "string \<Rightarrow> string list" where
  "segments [] = [[]]"
| "segments (c # cs) =
     (if c = CHR ''/'' then [] # segments cs
      else (case segments cs of [] \<Rightarrow> [[c]] | s # ss \<Rightarrow> (c # s) # ss))"

fun unsegments :: "string list \<Rightarrow> string" where
  "unsegments [] = []"
| "unsegments [s] = s"
| "unsegments (s # ss) = s @ CHR ''/'' # unsegments ss"

fun normalize_segments :: "bool \<Rightarrow> string list \<Rightarrow> string list \<Rightarrow> string list" where
  "normalize_segments absolute acc [] = rev acc"
| "normalize_segments absolute acc (s # ss) =
     (if s = [] \<or> s = ''.'' then normalize_segments absolute acc ss
      else if s = ''..'' then
        (case acc of
           [] \<Rightarrow> normalize_segments absolute (if absolute then [] else [s]) ss
         | t # ts \<Rightarrow>
             if t = ''..'' then normalize_segments absolute (s # acc) ss
             else normalize_segments absolute ts ss)
      else normalize_segments absolute (s # acc) ss)"

definition posix_normalize :: "string \<Rightarrow> string" where
  "posix_normalize p =
     (let absolute = (take 1 p = ''/'');
          body = unsegments (normalize_segments absolute [] (segments p))
      in if absolute then CHR ''/'' # body else if body = [] then ''.'' else body)"

definition posix_join :: "string list \<Rightarrow> string" where
  "posix_join parts =
     (let ps = filter (\<lambda>p. p \<noteq> []) parts
      in if ps = [] then ''.'' else posix_normalize (unsegments ps))"

definition posix_resolve :: "string \<Rightarrow> string list \<Rightarrow> string" where
  "posix_resolve cwd parts =
     posix_normalize
       (foldl (\<lambda>acc p. if p = [] then acc else if take 1 p = ''/'' then p else acc @ CHR ''/'' # p)
          cwd parts)"

definition last_segment :: "string \<Rightarrow> string" where
  "last_segment p = rev (takeWhile (\<lambda>c. c \<noteq> CHR ''/'') (rev p))"

definition posix_dirname :: "string \<Rightarrow> string" where
  "posix_dirname p =
     (if CHR ''/'' \<notin> set p then ''.''
      else (let d = rev (tl (dropWhile (\<lambda>c. c \<noteq> CHR ''/'') (rev p)))
            in if d = [] then ''/'' else d))"

definition posix_extname :: "string \<Rightarrow> string" where
  "posix_extname p =
     (let b = last_segment p;
          e = rev (takeWhile (\<lambda>c. c \<noteq> CHR ''.'') (rev b))
      in if CHR ''.'' \<notin> set b \<or> b = ''..'' \<or> length b = Suc (length e) then []
         else CHR ''.'' # e)"

definition posix_basename :: "string \<Rightarrow> string \<Rightarrow> string" where
  "posix_basename p ext =
     (let b = last_segment p
      in if ext \<noteq> [] \<and> p = ext then []
         else if ext \<noteq> [] \<and> length ext < length b \<and> drop (length b - length ext) b = ext
         then take (length b - length ext) b
         else b)"

fun strip_common :: "string list \<Rightarrow> string list \<Rightarrow> string list \<times> string list" where
  "strip_common (a # as) (b # bs) = (if a = b then strip_common as bs else (a # as, b # bs))"
| "strip_common as bs = (as, bs)"

definition posix_relative :: "string \<Rightarrow> string \<Rightarrow> string" where
  "posix_relative from to =
     (case strip_common (filter (\<lambda>s. s \<noteq> []) (segments from)) (filter (\<lambda>s. s \<noteq> []) (segments to)) of
        (ups, downs) \<Rightarrow> unsegments (map (\<lambda>_. ''..'') ups @ downs))"

definition demo_hash :: "string \<Rightarrow> string" where
  "demo_hash bytes =
     (if bytes = ''logo'' then ''SjafTEhN''
      else if bytes = ''icon'' then ''fXQovAhq''
      else ''bkEmBgPx'')"

definition demo_postcss ::
  "parser option \<Rightarrow> bool \<Rightarrow> bool \<Rightarrow> string \<Rightarrow> string \<Rightarrow> string \<Rightarrow> fs
     \<Rightarrow> js_error + ((string \<times> string) \<times> fs)" where
  "demo_postcss parser useHash keep from to content fs = Inr ((content, ''{}''), fs)"

definition posix :: "string \<Rightarrow> host" where
  "posix cwd =
     \<lparr>path_extname = posix_extname, path_basename = posix_basename,
      path_dirname = posix_dirname, path_resolve = posix_resolve cwd,
      path_join = posix_join, path_relative = posix_relative,
      hash_bytes = demo_hash, postcss_process = demo_postcss\<rparr>"

definition demo_options :: "bool \<Rightarrow> bool \<Rightarrow> string \<Rightarrow> options" where
  "demo_options keep skip folder =
     \<lparr>filter_fn = (\<lambda>p. True), verbose = False, keepName = keep, skipHash = skip,
      assetFolder = folder\<rparr>"

text \<open>The project of the examples: \<^verbatim>\<open>/proj\<close> is the working directory, \<^verbatim>\<open>src/index.js\<close>
  the entry point.\<close>

definition demo_host :: host where
  "demo_host = posix ''/proj''"

definition demo_fs :: fs where
  "demo_fs =
     [''/proj/src/logo.png'' \<mapsto> ''logo'', ''/proj/src/img/icon.svg'' \<mapsto> ''icon'',
      ''/proj/src/lib/logo.png'' \<mapsto> ''other'', ''/proj/src/main.sss'' \<mapsto> ''a b'',
      ''/proj/src/page.css'' \<mapsto> ''body{}'', ''/proj/src/img/brand.png'' \<mapsto> ''logo'']"

definition demo_start :: plugin_state where
  "demo_start =
     snd (resolveId demo_host (demo_options False False []) demo_fs ''src/index.js'' None
            init_state)"

definition demo_logo :: call where
  "demo_logo = (demo_fs, ''./logo.png'', Some ''/proj/src/index.js'')"

definition demo_out :: output_options where
  "demo_out = \<lparr>out_file = Some ''/proj/dist/index.js'', out_dir = None\<rparr>"

definition demo_icon :: call where
  "demo_icon = (demo_fs, ''./img/icon.svg'', Some ''/proj/src/index.js'')"

text \<open>The state once \<^verbatim>\<open>./logo.png\<close> is registered, with the default options.\<close>

definition demo_registered :: plugin_state where
  "demo_registered = resolveAll demo_host (demo_options False False []) [demo_logo] demo_start"

definition demo_page :: call where
  "demo_page = (demo_fs, ''./page.css'', Some ''/proj/src/index.js'')"

text \<open>The state once \<^verbatim>\<open>./logo.png\<close> and \<^verbatim>\<open>./page.css\<close> are registered.\<close>

definition demo_two :: plugin_state where
  "demo_two =
     resolveAll demo_host (demo_options False False []) [demo_logo, demo_page] demo_start"

text \<open>The state once \<^verbatim>\<open>./page.css\<close> alone is registered.\<close>

definition demo_styled :: plugin_state where
  "demo_styled = resolveAll demo_host (demo_options False False []) [demo_page] demo_start"

text \<open>The file system after \<^verbatim>\<open>page.css\<close>, or \<^verbatim>\<open>logo.png\<close>, was deleted.\<close>

definition demo_fs_no_page :: fs where
  "demo_fs_no_page = demo_fs(''/proj/src/page.css'' := None)"

definition demo_fs_no_logo :: fs where
  "demo_fs_no_logo = demo_fs(''/proj/src/logo.png'' := None)"

subsection \<open>The invariant of the registries\<close>

text \<open>Every value of \<^verbatim>\<open>wrappers\<close> is a key of \<^verbatim>\<open>assets\<close> with the value \<^verbatim>\<open>true\<close>.\<close>

definition registry_inv :: "plugin_state \<Rightarrow> bool" where
  "registry_inv st \<longleftrightarrow> (\<forall>e \<in> set (wrappers st). map_of (assets st) (snd e) = Some True)"

text \<open>With hashing on and the bytes of the files as in \<open>fs\<close>, every entry of \<^verbatim>\<open>files\<close>
  is the asset folder joined with such a name, built from the digest of its source file.\<close>

definition files_named :: "host \<Rightarrow> options \<Rightarrow> fs \<Rightarrow> plugin_state \<Rightarrow> bool" where
  "files_named h opts fs st \<longleftrightarrow>
     (\<forall>entry \<in> set (files st).
        \<exists>bytes n x.
          fs (fst entry) = Some bytes \<and> CHR ''/'' \<notin> set n \<and> CHR ''.'' \<notin> set x \<and>
          CHR ''/'' \<notin> set x \<and>
          snd entry =
            path_join h [assetFolder opts, hashed_name (keepName opts) n (hash_bytes h bytes) x])"

section \<open>Properties\<close>

subsection \<open>Association lists, pairs and strings\<close>

lemma set_update_subset: "set (AList.update k v al) \<subseteq> insert (k, v) (set al)"
  by (induction al) auto


lemma pair_of_fst: "fst p = a \<Longrightarrow> p = (a, snd p)"
  by (cases p) simp

subsection \<open>Registered assets stay registered; the invariant is kept\<close>

lemma register_assets_mono:
  "map_of (assets st) k = Some True \<Longrightarrow>
   map_of (assets (snd (register h opts src tgt st))) k = Some True"
  by (simp add: register_def Let_def update_conv' split: option.splits)

lemma resolveId_assets_mono:
  "map_of (assets st) k = Some True \<Longrightarrow>
   map_of (assets (snd (resolveId h opts fs importee importer st))) k = Some True"
  by (simp add: resolveId_def entry_point_def register_assets_mono
      split: option.splits sum.splits)

lemma resolveAll_assets_mono:
  "map_of (assets st) k = Some True \<Longrightarrow>
   map_of (assets (resolveAll h opts calls st)) k = Some True"
proof (induction calls arbitrary: st)
  case Nil
  then show ?case by simp
next
  case (Cons c calls)
  obtain fs importee importer where c: "c = (fs, importee, importer)"
    by (cases c) auto
  show ?case
    unfolding c resolveAll.simps
    by (rule Cons.IH) (rule resolveId_assets_mono [OF Cons.prems])
qed

lemma register_inv:
  assumes "registry_inv st"
  shows "registry_inv (snd (register h opts src tgt st))"
proof (cases "root st")
  case None
  with assms show ?thesis
    by (simp add: register_def registry_inv_def)
next
  case (Some r)
  show ?thesis
    unfolding registry_inv_def
  proof
    fix e
    assume e: "e \<in> set (wrappers (snd (register h opts src tgt st)))"
    let ?aid = "replace_all_backslash (path_join h [r, assetFolder opts, tgt])"
    from e Some have "e \<in> set (AList.update (?aid @ ''.js'') ?aid (wrappers st))"
      by (simp add: register_def Let_def)
    then have "e = (?aid @ ''.js'', ?aid) \<or> e \<in> set (wrappers st)"
      using set_update_subset by fastforce
    then show "map_of (assets (snd (register h opts src tgt st))) (snd e) = Some True"
    proof
      assume "e = (?aid @ ''.js'', ?aid)"
      then show ?thesis
        using Some by (simp add: register_def Let_def update_conv')
    next
      assume "e \<in> set (wrappers st)"
      with assms have "map_of (assets st) (snd e) = Some True"
        by (simp add: registry_inv_def)
      then show ?thesis
        by (rule register_assets_mono)
    qed
  qed
qed

lemma resolveId_inv:
  "registry_inv st \<Longrightarrow> registry_inv (snd (resolveId h opts fs importee importer st))"
  using register_inv
  by (auto simp add: resolveId_def entry_point_def registry_inv_def
      split: option.splits sum.splits)

lemma resolveAll_inv:
  "registry_inv st \<Longrightarrow> registry_inv (resolveAll h opts calls st)"
proof (induction calls arbitrary: st)
  case Nil
  then show ?case by simp
next
  case (Cons c calls)
  obtain fs importee importer where c: "c = (fs, importee, importer)"
    by (cases c) auto
  show ?case
    unfolding c resolveAll.simps
    by (rule Cons.IH) (rule resolveId_inv [OF Cons.prems])
qed

text \<open>
  Claim C9. After every sequence of \<^verbatim>\<open>resolveId\<close> calls on a fresh plugin instance, every
  value stored in \<^verbatim>\<open>wrappers\<close> (the asset id a wrapper re-exports) is a key of
  \<^verbatim>\<open>assets\<close> with the value \<^verbatim>\<open>true\<close>.
\<close>

theorem wrappers_point_to_assets:
  assumes "(rid, aid) \<in> set (wrappers (resolveAll h opts calls init_state))"
  shows "map_of (assets (resolveAll h opts calls init_state)) aid = Some True"
proof -
  have "registry_inv init_state"
    by (simp add: registry_inv_def init_state_def)
  then have "registry_inv (resolveAll h opts calls init_state)"
    by (rule resolveAll_inv)
  with assms show ?thesis
    by (fastforce simp add: registry_inv_def)
qed

theorem wrappers_point_to_assets_witness:
  "(''/proj/src/SjafTEhN.png.js'', ''/proj/src/SjafTEhN.png'') \<in>
     set (wrappers (resolveAll demo_host (demo_options False False [])
       [(demo_fs, ''src/index.js'', None), demo_logo] init_state)) \<and>
   map_of (assets (resolveAll demo_host (demo_options False False [])
     [(demo_fs, ''src/index.js'', None), demo_logo] init_state))
     ''/proj/src/SjafTEhN.png'' = Some True"
proof -
  have m: "(''/proj/src/SjafTEhN.png.js'', ''/proj/src/SjafTEhN.png'') \<in>
     set (wrappers (resolveAll demo_host (demo_options False False [])
       [(demo_fs, ''src/index.js'', None), demo_logo] init_state))"
    by code_simp
  from wrappers_point_to_assets [OF m] m show ?thesis
    by simp
qed

subsection \<open>The branches of resolveId\<close>

lemma resolveId_no_importer:
  assumes "no_importer importer"
  shows "resolveId h opts fs importee importer st = entry_point h importee st"
  using assms by (simp add: resolveId_def no_importer_def split: option.splits)

lemma resolveId_importer:
  assumes "\<not> no_importer importer"
  shows "\<exists>imp. importer = Some imp \<and> imp \<noteq> []"
  using assms by (simp add: no_importer_def split: option.splits)

text \<open>What a call that reaches the registration of lines 158-183 has passed.\<close>

lemma resolveId_HandledD:
  assumes "resolveId h opts fs importee importer st = (Inr (Handled rid), st')"
  shows "\<exists>imp bytes.
           importer = Some imp \<and> imp \<noteq> [] \<and> \<not> non_null (assets st) importee \<and>
           path_extname h importee \<noteq> [] \<and> \<not> scriptExtensions (path_extname h importee) \<and>
           filter_fn opts (fileSource_of h imp importee) \<and>
           fs (fileSource_of h imp importee) = Some bytes \<and>
           register h opts (fileSource_of h imp importee)
             (if skipHash opts then fileName_of h importee @ fileExt_of h importee
              else if keepName opts
                then fileName_of h importee @ ''~'' @ hash_bytes h bytes @ fileExt_of h importee
                else hash_bytes h bytes @ fileExt_of h importee)
             (if skipHash opts then st
              else st\<lparr>hashLog := hashLog st @ [fileSource_of h imp importee]\<rparr>) =
             (Inr (Handled rid), st')"
  using assms
  by (auto simp add: resolveId_def entry_point_def pathExists_def getHash_def
      split: option.splits if_splits sum.splits)

lemma register_files:
  "map_of (files (snd (register h opts src tgt st))) src =
     Some (path_join h [assetFolder opts, tgt])"
  by (simp add: register_def Let_def update_conv' split: option.splits)

lemma register_HandledD:
  assumes "register h opts src tgt st = (Inr (Handled rid), st')"
  shows "\<exists>r. root st = Some r \<and>
           rid = replace_all_backslash (path_join h [r, assetFolder opts, tgt]) @ ''.js'' \<and>
           st' = st\<lparr>files := AList.update src (path_join h [assetFolder opts, tgt]) (files st),
                    assets := AList.update
                      (replace_all_backslash (path_join h [r, assetFolder opts, tgt])) True
                      (assets st),
                    wrappers := AList.update
                      (replace_all_backslash (path_join h [r, assetFolder opts, tgt]) @ ''.js'')
                      (replace_all_backslash (path_join h [r, assetFolder opts, tgt]))
                      (wrappers st)\<rparr>"
  using assms by (auto simp add: register_def Let_def split: option.splits)

subsection \<open>Cycle breaking\<close>

text \<open>
  Claim C2, as amended. Once \<^verbatim>\<open>assets[id]\<close> is \<^verbatim>\<open>true\<close>, it stays so through every later
  call, and a call of \<^verbatim>\<open>resolveId\<close> with that id as importee and an importer present
  returns \<^verbatim>\<open>false\<close> (Excluded) and leaves the state as it is. With no importer the check of
  line 102 comes first: the call returns \<^verbatim>\<open>null\<close> (NotHandled), sets \<^verbatim>\<open>root\<close> and
  changes no registry. In neither case is the id handled or registered again.
\<close>

theorem registered_id_excluded:
  assumes "map_of (assets st) ident = Some True"
  shows "(\<not> no_importer importer \<longrightarrow>
            resolveId h opts fs ident importer (resolveAll h opts calls st) =
              (Inr Excluded, resolveAll h opts calls st)) \<and>
         (no_importer importer \<longrightarrow>
            fst (resolveId h opts fs ident importer (resolveAll h opts calls st)) = Inr NotHandled \<and>
            wrappers (snd (resolveId h opts fs ident importer (resolveAll h opts calls st))) =
              wrappers (resolveAll h opts calls st) \<and>
            assets (snd (resolveId h opts fs ident importer (resolveAll h opts calls st))) =
              assets (resolveAll h opts calls st) \<and>
            files (snd (resolveId h opts fs ident importer (resolveAll h opts calls st))) =
              files (resolveAll h opts calls st))"
proof -
  let ?st = "resolveAll h opts calls st"
  have reg: "map_of (assets ?st) ident = Some True"
    using assms by (rule resolveAll_assets_mono)
  show ?thesis
  proof (intro conjI impI)
    assume "\<not> no_importer importer"
    then obtain imp where "importer = Some imp" "imp \<noteq> []"
      using resolveId_importer by blast
    with reg show "resolveId h opts fs ident importer ?st = (Inr Excluded, ?st)"
      by (simp add: resolveId_def non_null_def)
  next
    assume n: "no_importer importer"
    show "fst (resolveId h opts fs ident importer ?st) = Inr NotHandled"
      by (simp add: resolveId_no_importer [OF n] entry_point_def)
    show "wrappers (snd (resolveId h opts fs ident importer ?st)) = wrappers ?st"
      by (simp add: resolveId_no_importer [OF n] entry_point_def)
    show "assets (snd (resolveId h opts fs ident importer ?st)) = assets ?st"
      by (simp add: resolveId_no_importer [OF n] entry_point_def)
    show "files (snd (resolveId h opts fs ident importer ?st)) = files ?st"
      by (simp add: resolveId_no_importer [OF n] entry_point_def)
  qed
qed

theorem registered_id_excluded_witness:
  "map_of (assets demo_registered) ''/proj/src/SjafTEhN.png'' = Some True \<and>
   resolveId demo_host (demo_options False False []) demo_fs ''/proj/src/SjafTEhN.png''
     (Some ''/proj/src/SjafTEhN.png.js'')
     (resolveAll demo_host (demo_options False False []) [demo_icon] demo_registered) =
     (Inr Excluded, resolveAll demo_host (demo_options False False []) [demo_icon] demo_registered) \<and>
   fst (resolveId demo_host (demo_options False False []) demo_fs ''/proj/src/SjafTEhN.png'' None
     (resolveAll demo_host (demo_options False False []) [demo_icon] demo_registered)) =
     Inr NotHandled"
proof -
  have a: "map_of (assets demo_registered) ''/proj/src/SjafTEhN.png'' = Some True"
    by code_simp
  have b: "\<not> no_importer (Some ''/proj/src/SjafTEhN.png.js'')" and c: "no_importer None"
    by (simp_all add: no_importer_def)
  from registered_id_excluded [OF a, where importer = "Some ''/proj/src/SjafTEhN.png.js''"] b
    registered_id_excluded [OF a, where importer = None] c a
  show ?thesis
    by blast
qed

text \<open>The claim as stated fails when the importer is missing: the registered id is then
  answered with \<^verbatim>\<open>null\<close>, not with \<^verbatim>\<open>false\<close>.\<close>

theorem registered_id_without_importer:
  "map_of (assets demo_registered) ''/proj/src/SjafTEhN.png'' = Some True \<and>
   fst (resolveId demo_host (demo_options False False []) demo_fs ''/proj/src/SjafTEhN.png'' None
          demo_registered) = Inr NotHandled \<and>
   fst (resolveId demo_host (demo_options False False []) demo_fs ''/proj/src/SjafTEhN.png'' None
          demo_registered) \<noteq> Inr Excluded"
  by code_simp

subsection \<open>The naming policy\<close>

text \<open>
  Claim C3. The destination file name is to be base name plus extension when \<^verbatim>\<open>skipHash\<close>
  is set, base name, a tilde, the hash and the extension when hashing is on and \<^verbatim>\<open>keepName\<close>
  is set, and the hash plus the extension otherwise. The code misses this for an importee
  with the extension \<^verbatim>\<open>.sss\<close>: line 145 calls \<^verbatim>\<open>path.basename(importee, fileExt)\<close> after
  line 123 has set \<^verbatim>\<open>fileExt\<close> to \<^verbatim>\<open>.pcss\<close>, which the importee does not end in, so
  nothing is stripped and the base name keeps \<^verbatim>\<open>.sss\<close>. For \<^verbatim>\<open>./main.sss\<close>, whose base name
  is \<^verbatim>\<open>main\<close>, the names are \<^verbatim>\<open>main.sss.pcss\<close> and \<^verbatim>\<open>main.sss~bkEmBgPx.pcss\<close>; only the
  name of the hash alone is as the claim has it.
\<close>

theorem sss_base_name_keeps_extension:
  "path_extname demo_host ''./main.sss'' = ''.sss'' \<and>
   path_basename demo_host ''./main.sss'' ''.sss'' = ''main'' \<and>
   fileExt_of demo_host ''./main.sss'' = ''.pcss'' \<and>
   fileName_of demo_host ''./main.sss'' = ''main.sss'' \<and>
   resolveId demo_host (demo_options False True []) demo_fs ''./main.sss''
     (Some ''/proj/src/index.js'') demo_start =
     (Inr (Handled ''/proj/src/main.sss.pcss.js''),
      \<lparr>wrappers = [(''/proj/src/main.sss.pcss.js'', ''/proj/src/main.sss.pcss'')],
       assets = [(''/proj/src/main.sss.pcss'', True)],
       files = [(''/proj/src/main.sss'', ''main.sss.pcss'')],
       root = Some ''/proj/src'', hashLog = []\<rparr>) \<and>
   files (snd (resolveId demo_host (demo_options True False []) demo_fs ''./main.sss''
     (Some ''/proj/src/index.js'') demo_start)) =
     [(''/proj/src/main.sss'', ''main.sss~bkEmBgPx.pcss'')] \<and>
   files (snd (resolveId demo_host (demo_options False False []) demo_fs ''./main.sss''
     (Some ''/proj/src/index.js'') demo_start)) =
     [(''/proj/src/main.sss'', ''bkEmBgPx.pcss'')]"
  by code_simp

subsection \<open>Delegation to the host\<close>

lemma resolveId_inherited_name:
  assumes "importer = Some imp" and "imp \<noteq> []" and "importee \<in> set object_prototype_names"
  shows "resolveId h opts fs importee importer st = (Inr Excluded, st)"
  using assms by (simp add: resolveId_def non_null_def)

text \<open>
  Claim C5, as amended. \<^verbatim>\<open>resolveId\<close> returns \<^verbatim>\<open>null\<close> (NotHandled) whenever there is no
  importer, and whenever there is one, the importee is neither a registered asset id nor a
  name that \<^verbatim>\<open>Object.prototype\<close> defines, and the importee has no file extension, or its
  extension is one of the script extensions, or the absolute source path fails the
  include/exclude filter, or that path does not exist on disk. In all these cases no entry of
  \<^verbatim>\<open>wrappers\<close>, \<^verbatim>\<open>assets\<close> or \<^verbatim>\<open>files\<close> is created. When the importee is a registered asset
  id and an importer is present, the call returns \<^verbatim>\<open>false\<close> (Excluded) whatever its
  extension and whether or not the path exists, again without any new entry.
\<close>

theorem delegation:
  shows "(no_importer importer \<longrightarrow>
            fst (resolveId h opts fs importee importer st) = Inr NotHandled \<and>
            wrappers (snd (resolveId h opts fs importee importer st)) = wrappers st \<and>
            assets (snd (resolveId h opts fs importee importer st)) = assets st \<and>
            files (snd (resolveId h opts fs importee importer st)) = files st) \<and>
         (\<forall>imp. importer = Some imp \<and> imp \<noteq> [] \<and> map_of (assets st) importee = None \<and>
            importee \<notin> set object_prototype_names \<and>
            (path_extname h importee = [] \<or> scriptExtensions (path_extname h importee) \<or>
             \<not> filter_fn opts (fileSource_of h imp importee) \<or>
             \<not> pathExists fs (fileSource_of h imp importee)) \<longrightarrow>
            resolveId h opts fs importee importer st = (Inr NotHandled, st)) \<and>
         (\<forall>imp. importer = Some imp \<and> imp \<noteq> [] \<and> map_of (assets st) importee \<noteq> None \<longrightarrow>
            resolveId h opts fs importee importer st = (Inr Excluded, st))"
proof (intro conjI impI allI)
  assume n: "no_importer importer"
  show "fst (resolveId h opts fs importee importer st) = Inr NotHandled"
    by (simp add: resolveId_no_importer [OF n] entry_point_def)
  show "wrappers (snd (resolveId h opts fs importee importer st)) = wrappers st"
    by (simp add: resolveId_no_importer [OF n] entry_point_def)
  show "assets (snd (resolveId h opts fs importee importer st)) = assets st"
    by (simp add: resolveId_no_importer [OF n] entry_point_def)
  show "files (snd (resolveId h opts fs importee importer st)) = files st"
    by (simp add: resolveId_no_importer [OF n] entry_point_def)
next
  fix imp
  assume "importer = Some imp \<and> imp \<noteq> [] \<and> map_of (assets st) importee = None \<and>
            importee \<notin> set object_prototype_names \<and>
            (path_extname h importee = [] \<or> scriptExtensions (path_extname h importee) \<or>
             \<not> filter_fn opts (fileSource_of h imp importee) \<or>
             \<not> pathExists fs (fileSource_of h imp importee))"
  then show "resolveId h opts fs importee importer st = (Inr NotHandled, st)"
    by (auto simp add: resolveId_def non_null_def)
next
  fix imp
  assume "importer = Some imp \<and> imp \<noteq> [] \<and> map_of (assets st) importee \<noteq> None"
  then show "resolveId h opts fs importee importer st = (Inr Excluded, st)"
    by (auto simp add: resolveId_def non_null_def)
qed

theorem delegation_witness:
  "fst (resolveId demo_host (demo_options False False []) demo_fs ''src/index.js'' None
          init_state) = Inr NotHandled \<and>
   resolveId demo_host (demo_options False False []) demo_fs ''lodash''
     (Some ''/proj/src/index.js'') demo_registered = (Inr NotHandled, demo_registered) \<and>
   resolveId demo_host (demo_options False False []) demo_fs ''./util.js''
     (Some ''/proj/src/index.js'') demo_registered = (Inr NotHandled, demo_registered) \<and>
   resolveId demo_host ((demo_options False False [])\<lparr>filter_fn := (\<lambda>p. False)\<rparr>) demo_fs
     ''./logo.png'' (Some ''/proj/src/index.js'') demo_start = (Inr NotHandled, demo_start) \<and>
   resolveId demo_host (demo_options False False []) demo_fs ''./es.array.reduce''
     (Some ''/proj/src/index.js'') demo_registered = (Inr NotHandled, demo_registered) \<and>
   resolveId demo_host (demo_options False False []) demo_fs ''/proj/src/SjafTEhN.png''
     (Some ''/proj/src/SjafTEhN.png.js'') demo_registered = (Inr Excluded, demo_registered)"
proof -
  have n: "no_importer None"
    by (simp add: no_importer_def)
  have fresh: "map_of (assets demo_registered) ''lodash'' = None"
    "map_of (assets demo_registered) ''./util.js'' = None"
    "map_of (assets demo_start) ''./logo.png'' = None"
    "map_of (assets demo_registered) ''./es.array.reduce'' = None"
    by code_simp+
  have known: "map_of (assets demo_registered) ''/proj/src/SjafTEhN.png'' \<noteq> None"
    by code_simp
  have plain: "''lodash'' \<notin> set object_prototype_names"
    "''./util.js'' \<notin> set object_prototype_names"
    "''./logo.png'' \<notin> set object_prototype_names"
    "''./es.array.reduce'' \<notin> set object_prototype_names"
    by code_simp+
  have c1: "path_extname demo_host ''lodash'' = []"
    by code_simp
  have c2: "scriptExtensions (path_extname demo_host ''./util.js'')"
    by code_simp
  have c3: "\<not> filter_fn ((demo_options False False [])\<lparr>filter_fn := (\<lambda>p. False)\<rparr>)
      (fileSource_of demo_host ''/proj/src/index.js'' ''./logo.png'')"
    by simp
  have c4: "\<not> pathExists demo_fs
      (fileSource_of demo_host ''/proj/src/index.js'' ''./es.array.reduce'')"
    by code_simp
  have "fst (resolveId demo_host (demo_options False False []) demo_fs ''src/index.js'' None
          init_state) = Inr NotHandled"
    using delegation [where importer = None] n by blast
  moreover have "resolveId demo_host (demo_options False False []) demo_fs ''lodash''
     (Some ''/proj/src/index.js'') demo_registered = (Inr NotHandled, demo_registered)"
    using delegation [where importer = "Some ''/proj/src/index.js''" and importee = "''lodash''"]
      fresh(1) plain(1) c1 by simp
  moreover have "resolveId demo_host (demo_options False False []) demo_fs ''./util.js''
     (Some ''/proj/src/index.js'') demo_registered = (Inr NotHandled, demo_registered)"
    using delegation [where importer = "Some ''/proj/src/index.js''" and importee = "''./util.js''"]
      fresh(2) plain(2) c2 by simp
  moreover have "resolveId demo_host ((demo_options False False [])\<lparr>filter_fn := (\<lambda>p. False)\<rparr>)
     demo_fs ''./logo.png'' (Some ''/proj/src/index.js'') demo_start =
     (Inr NotHandled, demo_start)"
    using delegation [where importer = "Some ''/proj/src/index.js''" and
        importee = "''./logo.png''" and st = demo_start and
        opts = "(demo_options False False [])\<lparr>filter_fn := (\<lambda>p. False)\<rparr>"]
      fresh(3) plain(3) c3 by simp
  moreover have "resolveId demo_host (demo_options False False []) demo_fs ''./es.array.reduce''
     (Some ''/proj/src/index.js'') demo_registered = (Inr NotHandled, demo_registered)"
    using delegation [where importer = "Some ''/proj/src/index.js''" and
        importee = "''./es.array.reduce''" and fs = demo_fs and h = demo_host]
      fresh(4) plain(4) c4 by simp
  moreover have "resolveId demo_host (demo_options False False []) demo_fs
     ''/proj/src/SjafTEhN.png'' (Some ''/proj/src/SjafTEhN.png.js'') demo_registered =
     (Inr Excluded, demo_registered)"
    using delegation [where importer = "Some ''/proj/src/SjafTEhN.png.js''" and
        importee = "''/proj/src/SjafTEhN.png''" and st = demo_registered]
      known by simp
  ultimately show ?thesis
    by blast
qed

text \<open>The claim as stated fails for the import that a wrapper module makes: the importee
  is the registered asset id, no file exists at that path, and the answer is \<^verbatim>\<open>false\<close>,
  not \<^verbatim>\<open>null\<close>.\<close>

theorem missing_path_not_delegated:
  "\<not> pathExists demo_fs
       (fileSource_of demo_host ''/proj/src/SjafTEhN.png.js'' ''/proj/src/SjafTEhN.png'') \<and>
   fst (resolveId demo_host (demo_options False False []) demo_fs ''/proj/src/SjafTEhN.png''
          (Some ''/proj/src/SjafTEhN.png.js'') demo_registered) = Inr Excluded \<and>
   fst (resolveId demo_host (demo_options False False []) demo_fs ''/proj/src/SjafTEhN.png''
          (Some ''/proj/src/SjafTEhN.png.js'') demo_registered) \<noteq> Inr NotHandled"
  by code_simp

subsection \<open>The renaming of the SugarSS extension\<close>

lemma logAction_ok:
  assumes "verbose opts \<longrightarrow> root st \<noteq> None"
  shows "\<exists>c. logAction h opts st verb src dest console = Inr c"
  using assms by (auto simp add: logAction_def rootRelative_def)

lemma emitFile_style:
  assumes parser: "map_of styleParser (path_extname h src) = Some parser"
    and content: "fs src = Some content"
    and log: "verbose opts \<longrightarrow> root st \<noteq> None"
  shows "fst (emitFile h opts st outFolder (src, dst) (fs, console)) =
           (case postcss_process h parser (\<not> skipHash opts) (keepName opts) src
                   (path_join h [outFolder, dst]) content fs of
              Inl e \<Rightarrow> Some e
            | Inr r \<Rightarrow> None) \<and>
         fst (snd (emitFile h opts st outFolder (src, dst) (fs, console))) =
           (case postcss_process h parser (\<not> skipHash opts) (keepName opts) src
                   (path_join h [outFolder, dst]) content fs of
              Inl e \<Rightarrow> fs
            | Inr r \<Rightarrow>
                (snd r)(path_join h [outFolder, dst] \<mapsto> fst (fst r),
                        path_join h [outFolder, dst] @ ''.map'' \<mapsto> snd (fst r)))"
proof -
  obtain c where c: "logAction h opts st ''Processing'' src (path_join h [outFolder, dst]) console = Inr c"
    using logAction_ok [OF log] by blast
  show ?thesis
    using parser content
    by (simp add: emitFile_def announce_def operate_def Let_def c processStyle_def readFile_def
        outputFile_def split: sum.splits prod.splits)
qed

lemma pcss_not_sss: "stem @ ''.pcss'' \<noteq> s @ ''.sss''"
proof
  assume "stem @ ''.pcss'' = s @ ''.sss''"
  then have "rev (stem @ ''.pcss'') = rev (s @ ''.sss'')"
    by simp
  then show False
    by simp
qed

text \<open>
  Claim C4. An importee with the extension \<^verbatim>\<open>.sss\<close> that is handled gets a target name
  that ends in \<^verbatim>\<open>.pcss\<close>, never in \<^verbatim>\<open>.sss\<close>: the entry of \<^verbatim>\<open>files\<close> and the returned
  wrapper id are built from that name. In \<^verbatim>\<open>generateBundle\<close> the entry is processed as a
  stylesheet with the parser that the extension of the source file selects, SugarSS, and the
  css and the map are written at the \<^verbatim>\<open>.pcss\<close> destination.
\<close>

theorem sss_renamed:
  assumes ext: "path_extname h importee = ''.sss''"
    and res: "resolveId h opts fs importee (Some imp) st = (Inr (Handled rid), st')"
    and src: "path_extname h (fileSource_of h imp importee) = ''.sss''"
    and content: "fs2 (fileSource_of h imp importee) = Some content"
    and log: "verbose opts \<longrightarrow> root st2 \<noteq> None"
  shows "\<exists>r stem.
           root st = Some r \<and>
           map_of (files st') (fileSource_of h imp importee) =
             Some (path_join h [assetFolder opts, stem @ ''.pcss'']) \<and>
           rid = replace_all_backslash (path_join h [r, assetFolder opts, stem @ ''.pcss'']) @
                 ''.js'' \<and>
           (\<forall>s. stem @ ''.pcss'' \<noteq> s @ ''.sss'') \<and>
           fst (emitFile h opts st2 outFolder
                  (fileSource_of h imp importee, path_join h [assetFolder opts, stem @ ''.pcss''])
                  (fs2, console)) =
             (case postcss_process h (Some SugarSS) (\<not> skipHash opts) (keepName opts)
                     (fileSource_of h imp importee)
                     (path_join h [outFolder, path_join h [assetFolder opts, stem @ ''.pcss'']])
                     content fs2 of
                Inl e \<Rightarrow> Some e
              | Inr r \<Rightarrow> None) \<and>
           fst (snd (emitFile h opts st2 outFolder
                  (fileSource_of h imp importee, path_join h [assetFolder opts, stem @ ''.pcss''])
                  (fs2, console))) =
             (case postcss_process h (Some SugarSS) (\<not> skipHash opts) (keepName opts)
                     (fileSource_of h imp importee)
                     (path_join h [outFolder, path_join h [assetFolder opts, stem @ ''.pcss'']])
                     content fs2 of
                Inl e \<Rightarrow> fs2
              | Inr r \<Rightarrow>
                  (snd r)
                    (path_join h [outFolder, path_join h [assetFolder opts, stem @ ''.pcss'']]
                       \<mapsto> fst (fst r),
                     path_join h [outFolder, path_join h [assetFolder opts, stem @ ''.pcss'']] @
                       ''.map'' \<mapsto> snd (fst r)))"
proof -
  from resolveId_HandledD [OF res] obtain bytes tgt st0 where
    tgt: "tgt = (if skipHash opts then fileName_of h importee @ fileExt_of h importee
              else if keepName opts
                then fileName_of h importee @ ''~'' @ hash_bytes h bytes @ fileExt_of h importee
                else hash_bytes h bytes @ fileExt_of h importee)" and
    st0: "st0 = (if skipHash opts then st
              else st\<lparr>hashLog := hashLog st @ [fileSource_of h imp importee]\<rparr>)" and
    reg: "register h opts (fileSource_of h imp importee) tgt st0 = (Inr (Handled rid), st')"
    by auto
  have e: "fileExt_of h importee = ''.pcss''"
    using ext by (simp add: fileExt_of_def)
  from tgt e obtain stem where stem: "tgt = stem @ ''.pcss''"
    by (cases "skipHash opts"; cases "keepName opts") auto
  from register_HandledD [OF reg] obtain r where
    r: "root st0 = Some r" and
    rid: "rid = replace_all_backslash (path_join h [r, assetFolder opts, tgt]) @ ''.js''"
    by blast
  have f: "map_of (files st') (fileSource_of h imp importee) =
          Some (path_join h [assetFolder opts, tgt])"
    using register_files [of h opts "fileSource_of h imp importee" tgt st0] reg by simp
  have root: "root st = Some r"
    using r st0 by (simp split: if_splits)
  have parser: "map_of styleParser (path_extname h (fileSource_of h imp importee)) =
      Some (Some SugarSS)"
    using src by (simp add: styleParser_def)
  note emit = emitFile_style [where fs = fs2 and src = "fileSource_of h imp importee" and
      outFolder = outFolder and dst = "path_join h [assetFolder opts, stem @ ''.pcss'']" and
      console = console, OF parser content log]
  show ?thesis
  proof (intro exI conjI)
    show "root st = Some r"
      by (rule root)
    show "map_of (files st') (fileSource_of h imp importee) =
             Some (path_join h [assetFolder opts, stem @ ''.pcss''])"
      using f stem by simp
    show "rid = replace_all_backslash (path_join h [r, assetFolder opts, stem @ ''.pcss'']) @
                 ''.js''"
      using rid stem by simp
    show "\<forall>s. stem @ ''.pcss'' \<noteq> s @ ''.sss''"
      using pcss_not_sss by blast
  qed (rule emit [THEN conjunct1], rule emit [THEN conjunct2])
qed

theorem sss_renamed_witness:
  "fst (resolveId demo_host (demo_options True False []) demo_fs ''./main.sss''
          (Some ''/proj/src/index.js'') demo_start) =
     Inr (Handled ''/proj/src/main.sss~bkEmBgPx.pcss.js'') \<and>
   map_of (files (snd (resolveId demo_host (demo_options True False []) demo_fs ''./main.sss''
          (Some ''/proj/src/index.js'') demo_start))) ''/proj/src/main.sss'' =
     Some ''main.sss~bkEmBgPx.pcss'' \<and>
   fst (snd (emitFile demo_host (demo_options True False []) demo_start ''/proj/dist''
          (''/proj/src/main.sss'', ''main.sss~bkEmBgPx.pcss'') (demo_fs, [])))
     ''/proj/dist/main.sss~bkEmBgPx.pcss'' = Some ''a b'' \<and>
   fst (snd (emitFile demo_host (demo_options True False []) demo_start ''/proj/dist''
          (''/proj/src/main.sss'', ''main.sss~bkEmBgPx.pcss'') (demo_fs, [])))
     ''/proj/dist/main.sss~bkEmBgPx.pcss.map'' = Some ''{}''"
proof -
  have ext: "path_extname demo_host ''./main.sss'' = ''.sss''"
    by code_simp
  have res: "resolveId demo_host (demo_options True False []) demo_fs ''./main.sss''
      (Some ''/proj/src/index.js'') demo_start =
      (Inr (Handled ''/proj/src/main.sss~bkEmBgPx.pcss.js''),
       snd (resolveId demo_host (demo_options True False []) demo_fs ''./main.sss''
         (Some ''/proj/src/index.js'') demo_start))"
    by (rule pair_of_fst) code_simp
  have src: "path_extname demo_host (fileSource_of demo_host ''/proj/src/index.js'' ''./main.sss'') =
      ''.sss''"
    by code_simp
  have content: "demo_fs (fileSource_of demo_host ''/proj/src/index.js'' ''./main.sss'') =
      Some ''a b''"
    by code_simp
  have log: "verbose (demo_options True False []) \<longrightarrow> root demo_start \<noteq> None"
    by (simp add: demo_options_def)
  note t = sss_renamed [where fs = demo_fs and ?fs2.0 = demo_fs and ?st2.0 = demo_start and
      outFolder = "''/proj/dist''" and console = "[]", OF ext res src content log]
  have c: "fst (resolveId demo_host (demo_options True False []) demo_fs ''./main.sss''
          (Some ''/proj/src/index.js'') demo_start) =
     Inr (Handled ''/proj/src/main.sss~bkEmBgPx.pcss.js'')"
    "map_of (files (snd (resolveId demo_host (demo_options True False []) demo_fs ''./main.sss''
          (Some ''/proj/src/index.js'') demo_start))) ''/proj/src/main.sss'' =
     Some ''main.sss~bkEmBgPx.pcss''"
    "fst (snd (emitFile demo_host (demo_options True False []) demo_start ''/proj/dist''
          (''/proj/src/main.sss'', ''main.sss~bkEmBgPx.pcss'') (demo_fs, [])))
     ''/proj/dist/main.sss~bkEmBgPx.pcss'' = Some ''a b''"
    "fst (snd (emitFile demo_host (demo_options True False []) demo_start ''/proj/dist''
          (''/proj/src/main.sss'', ''main.sss~bkEmBgPx.pcss'') (demo_fs, [])))
     ''/proj/dist/main.sss~bkEmBgPx.pcss.map'' = Some ''{}''"
    by code_simp+
  from t c show ?thesis
    by blast
qed

subsection \<open>The emitter\<close>

lemma first_error_None: "first_error a b = None \<longleftrightarrow> a = None \<and> b = None"
  by (cases a) (simp_all add: first_error_def)

lemma announce_ok:
  assumes "verbose opts \<longrightarrow> root st \<noteq> None"
  shows "\<exists>c. announce h opts st outFolder entry console = Inr c"
  using logAction_ok [OF assms] by (simp add: announce_def Let_def)

lemma announce_fails:
  assumes "verbose opts" and "root st = None"
  shows "announce h opts st outFolder entry console = Inl (path_arg_error ''from'' ''null'')"
  using assms by (simp add: announce_def Let_def logAction_def rootRelative_def)

lemma started_iff: "started h opts st outFolder entry \<longleftrightarrow> (verbose opts \<longrightarrow> root st \<noteq> None)"
proof (cases "verbose opts \<longrightarrow> root st \<noteq> None")
  case True
  then obtain c where "announce h opts st outFolder entry [] = Inr c"
    using announce_ok by blast
  with True show ?thesis
    by (simp add: started_def)
next
  case False
  then have "announce h opts st outFolder entry [] = Inl (path_arg_error ''from'' ''null'')"
    using announce_fails by simp
  with False show ?thesis
    by (simp add: started_def)
qed

lemma announceAll_ok:
  assumes "verbose opts \<longrightarrow> root st \<noteq> None"
  shows "fst (announceAll h opts st outFolder entries console) = None"
proof (induction entries arbitrary: console)
  case Nil
  show ?case by simp
next
  case (Cons entry entries)
  obtain c where "announce h opts st outFolder entry console = Inr c"
    using announce_ok [OF assms] by blast
  with Cons.IH show ?case
    by simp
qed

lemma announceAll_NoneD:
  assumes "fst (announceAll h opts st outFolder (entry # entries) console) = None"
  shows "verbose opts \<longrightarrow> root st \<noteq> None"
proof (rule ccontr)
  assume "\<not> (verbose opts \<longrightarrow> root st \<noteq> None)"
  then have "announce h opts st outFolder entry console = Inl (path_arg_error ''from'' ''null'')"
    using announce_fails by simp
  with assms show False
    by simp
qed

lemma operateAll_append:
  "operateAll h opts outFolder (xs @ ys) fs =
     (first_error (fst (operateAll h opts outFolder xs fs))
        (fst (operateAll h opts outFolder ys (snd (operateAll h opts outFolder xs fs)))),
      snd (operateAll h opts outFolder ys (snd (operateAll h opts outFolder xs fs))))"
proof (induction xs arbitrary: fs)
  case Nil
  show ?case
    by (simp add: first_error_def)
next
  case (Cons x xs)
  show ?case
  proof (cases "operate h opts outFolder x fs")
    case (Inl e)
    then show ?thesis
      by (simp add: Cons.IH first_error_def)
  next
    case (Inr fs1)
    then show ?thesis
      by (simp add: Cons.IH)
  qed
qed

lemma operate_done:
  assumes "operate h opts outFolder (src, dst) fs1 = Inr fs2"
  shows "(map_of styleParser (path_extname h src) \<noteq> None \<longrightarrow>
            (\<exists>parser content css srcmap fs1'.
               map_of styleParser (path_extname h src) = Some parser \<and>
               fs1 src = Some content \<and>
               postcss_process h parser (\<not> skipHash opts) (keepName opts) src
                 (path_join h [outFolder, dst]) content fs1 = Inr ((css, srcmap), fs1') \<and>
               fs2 = fs1'(path_join h [outFolder, dst] \<mapsto> css,
                          path_join h [outFolder, dst] @ ''.map'' \<mapsto> srcmap))) \<and>
         (map_of styleParser (path_extname h src) = None \<longrightarrow>
            (\<exists>bytes. fs1 src = Some bytes \<and> fs2 = fs1(path_join h [outFolder, dst] \<mapsto> bytes)))"
  using assms
  by (auto simp add: operate_def Let_def processStyle_def readFile_def outputFile_def copy_def
      split: sum.splits option.splits prod.splits if_splits)

text \<open>
  Claim C6. When \<^verbatim>\<open>generateBundle\<close> completes, in whatever order the operations did, the
  operation of every entry of \<^verbatim>\<open>files\<close> had its turn: if the extension of the source file is
  a key of \<^verbatim>\<open>styleParser\<close>, the file was read, run through the postcss pipeline with the
  parser of that extension and the plugin's \<^verbatim>\<open>keepName\<close> and \<^verbatim>\<open>skipHash\<close>, and the css was
  written at the destination path and the map, not inlined, at the destination path followed
  by \<^verbatim>\<open>.map\<close>; with any other extension the bytes of the source file were copied as they
  are to the destination path.
\<close>

theorem dialect_aware_emission:
  assumes ok: "generateBundle h opts st out order w = (None, w')"
    and order: "completion_order st order"
    and entry: "(src, dst) \<in> set (files st)"
  shows "\<exists>outFolder before after fs1 fs2.
           outputFolder h out = Inr outFolder \<and>
           order = before @ (src, dst) # after \<and>
           operateAll h opts outFolder before (fst w) = (None, fs1) \<and>
           operate h opts outFolder (src, dst) fs1 = Inr fs2 \<and>
           operateAll h opts outFolder after fs2 = (None, fst w') \<and>
           (map_of styleParser (path_extname h src) \<noteq> None \<longrightarrow>
              (\<exists>parser content css srcmap fs1'.
                 map_of styleParser (path_extname h src) = Some parser \<and>
                 fs1 src = Some content \<and>
                 postcss_process h parser (\<not> skipHash opts) (keepName opts) src
                   (path_join h [outFolder, dst]) content fs1 = Inr ((css, srcmap), fs1') \<and>
                 fs2 = fs1'(path_join h [outFolder, dst] \<mapsto> css,
                            path_join h [outFolder, dst] @ ''.map'' \<mapsto> srcmap))) \<and>
           (map_of styleParser (path_extname h src) = None \<longrightarrow>
              (\<exists>bytes. fs1 src = Some bytes \<and>
                 fs2 = fs1(path_join h [outFolder, dst] \<mapsto> bytes)))"
proof -
  from ok obtain outFolder where
    out: "outputFolder h out = Inr outFolder" and
    none: "first_error (fst (announceAll h opts st outFolder (files st) (snd w)))
             (fst (operateAll h opts outFolder (filter (started h opts st outFolder) order)
                (fst w))) = None" and
    w': "fst w' = snd (operateAll h opts outFolder (filter (started h opts st outFolder) order)
                (fst w))"
    by (auto simp add: generateBundle_def Let_def split: sum.splits option.splits)
  from entry obtain x xs where "files st = x # xs"
    by (cases "files st") auto
  with none have log: "verbose opts \<longrightarrow> root st \<noteq> None"
    using announceAll_NoneD [of h opts st outFolder x xs "snd w"] by (simp add: first_error_None)
  then have all: "filter (started h opts st outFolder) order = order"
    by (simp add: started_iff)
  from none all have fine: "fst (operateAll h opts outFolder order (fst w)) = None"
    by (simp add: first_error_None)
  from entry order have "(src, dst) \<in> set order"
    by (simp add: completion_order_def)
  then obtain before after where split: "order = before @ (src, dst) # after"
    by (auto dest: split_list)
  let ?fs1 = "snd (operateAll h opts outFolder before (fst w))"
  from fine have b: "fst (operateAll h opts outFolder before (fst w)) = None" and
    rest: "fst (operateAll h opts outFolder ((src, dst) # after) ?fs1) = None"
    by (simp_all add: split operateAll_append first_error_None)
  from rest obtain fs2 where
    e: "operate h opts outFolder (src, dst) ?fs1 = Inr fs2" and
    a: "fst (operateAll h opts outFolder after fs2) = None"
    by (cases "operate h opts outFolder (src, dst) ?fs1") auto
  have "fst w' = snd (operateAll h opts outFolder order (fst w))"
    using w' all by simp
  also have "\<dots> = snd (operateAll h opts outFolder after fs2)"
    using e by (simp add: split operateAll_append)
  finally have final: "snd (operateAll h opts outFolder after fs2) = fst w'"
    by simp
  note d = operate_done [OF e]
  show ?thesis
  proof (intro exI conjI)
    show "outputFolder h out = Inr outFolder"
      by (rule out)
    show "order = before @ (src, dst) # after"
      by (rule split)
    show "operateAll h opts outFolder before (fst w) = (None, ?fs1)"
      using b by (simp add: prod_eq_iff)
    show "operate h opts outFolder (src, dst) ?fs1 = Inr fs2"
      by (rule e)
    show "operateAll h opts outFolder after fs2 = (None, fst w')"
      using a final by (simp add: prod_eq_iff)
    show "map_of styleParser (path_extname h src) \<noteq> None \<longrightarrow>
              (\<exists>parser content css srcmap fs1'.
                 map_of styleParser (path_extname h src) = Some parser \<and>
                 ?fs1 src = Some content \<and>
                 postcss_process h parser (\<not> skipHash opts) (keepName opts) src
                   (path_join h [outFolder, dst]) content ?fs1 = Inr ((css, srcmap), fs1') \<and>
                 fs2 = fs1'(path_join h [outFolder, dst] \<mapsto> css,
                            path_join h [outFolder, dst] @ ''.map'' \<mapsto> srcmap))"
      using d by (rule conjunct1)
    show "map_of styleParser (path_extname h src) = None \<longrightarrow>
              (\<exists>bytes. ?fs1 src = Some bytes \<and>
                 fs2 = ?fs1(path_join h [outFolder, dst] \<mapsto> bytes))"
      using d by (rule conjunct2)
  qed
qed

theorem dialect_aware_emission_witness:
  "fst (generateBundle demo_host (demo_options False False []) demo_two demo_out
          [(''/proj/src/page.css'', ''bkEmBgPx.css''), (''/proj/src/logo.png'', ''SjafTEhN.png'')]
          (demo_fs, [])) = None \<and>
   files demo_two =
     [(''/proj/src/logo.png'', ''SjafTEhN.png''), (''/proj/src/page.css'', ''bkEmBgPx.css'')] \<and>
   fst (snd (generateBundle demo_host (demo_options False False []) demo_two demo_out
     [(''/proj/src/page.css'', ''bkEmBgPx.css''), (''/proj/src/logo.png'', ''SjafTEhN.png'')]
     (demo_fs, []))) ''/proj/dist/SjafTEhN.png'' = Some ''logo'' \<and>
   fst (snd (generateBundle demo_host (demo_options False False []) demo_two demo_out
     [(''/proj/src/page.css'', ''bkEmBgPx.css''), (''/proj/src/logo.png'', ''SjafTEhN.png'')]
     (demo_fs, []))) ''/proj/dist/bkEmBgPx.css'' = Some ''body{}'' \<and>
   fst (snd (generateBundle demo_host (demo_options False False []) demo_two demo_out
     [(''/proj/src/page.css'', ''bkEmBgPx.css''), (''/proj/src/logo.png'', ''SjafTEhN.png'')]
     (demo_fs, []))) ''/proj/dist/bkEmBgPx.css.map'' = Some ''{}''"
proof -
  let ?order = "[(''/proj/src/page.css'', ''bkEmBgPx.css''), (''/proj/src/logo.png'', ''SjafTEhN.png'')]"
  have ok: "generateBundle demo_host (demo_options False False []) demo_two demo_out ?order
      (demo_fs, []) =
      (None, snd (generateBundle demo_host (demo_options False False []) demo_two demo_out ?order
         (demo_fs, [])))"
    by (rule pair_of_fst) code_simp
  have order: "completion_order demo_two ?order"
    by code_simp
  have e1: "(''/proj/src/logo.png'', ''SjafTEhN.png'') \<in> set (files demo_two)"
    by code_simp
  have e2: "(''/proj/src/page.css'', ''bkEmBgPx.css'') \<in> set (files demo_two)"
    by code_simp
  note t1 = dialect_aware_emission [OF ok order e1] and t2 = dialect_aware_emission [OF ok order e2]
  have c: "fst (generateBundle demo_host (demo_options False False []) demo_two demo_out ?order
       (demo_fs, [])) = None"
    "files demo_two =
     [(''/proj/src/logo.png'', ''SjafTEhN.png''), (''/proj/src/page.css'', ''bkEmBgPx.css'')]"
    "fst (snd (generateBundle demo_host (demo_options False False []) demo_two demo_out ?order
     (demo_fs, []))) ''/proj/dist/SjafTEhN.png'' = Some ''logo''"
    "fst (snd (generateBundle demo_host (demo_options False False []) demo_two demo_out ?order
     (demo_fs, []))) ''/proj/dist/bkEmBgPx.css'' = Some ''body{}''"
    "fst (snd (generateBundle demo_host (demo_options False False []) demo_two demo_out ?order
     (demo_fs, []))) ''/proj/dist/bkEmBgPx.css.map'' = Some ''{}''"
    by code_simp+
  from t1 t2 c show ?thesis
    by blast
qed

text \<open>
  Claim C7, as amended. When the operation of an entry of \<^verbatim>\<open>files\<close> fails, and it is the
  first to fail, \<^verbatim>\<open>generateBundle\<close> ends with one error,
  \<^verbatim>\<open>new Error(`Error while copying files: ${error}`)\<close>: the message is the same fixed text
  followed by that failure, whether a copy or the processing of a stylesheet failed. Nothing
  is tried again and nothing is taken back: what the operations before it wrote stays, and
  the operations after it are not cancelled, they run on the file system as it then is.
\<close>

theorem emit_failure:
  assumes out: "outputFolder h out = Inr outFolder"
    and log: "verbose opts \<longrightarrow> root st \<noteq> None"
    and entry: "order = before @ entry # after"
    and before: "operateAll h opts outFolder before (fst w) = (None, fs1)"
    and fails: "operate h opts outFolder entry fs1 = Inl e"
  shows "fst (generateBundle h opts st out order w) =
           Some (JsError ''Error'' (''Error while copying files: '' @ error_toString e)) \<and>
         fst (snd (generateBundle h opts st out order w)) =
           snd (operateAll h opts outFolder after fs1)"
proof -
  have all: "filter (started h opts st outFolder) order = order"
    using log by (simp add: started_iff)
  have quiet: "fst (announceAll h opts st outFolder (files st) (snd w)) = None"
    using log by (rule announceAll_ok)
  have "operateAll h opts outFolder order (fst w) =
          (Some e, snd (operateAll h opts outFolder after fs1))"
    using before fails by (simp add: entry operateAll_append first_error_def)
  then show ?thesis
    using out all quiet by (simp add: generateBundle_def Let_def first_error_def)
qed

theorem emit_failure_witness:
  "fst (generateBundle demo_host (demo_options False False []) demo_two demo_out
          [(''/proj/src/page.css'', ''bkEmBgPx.css''), (''/proj/src/logo.png'', ''SjafTEhN.png'')]
          (demo_fs_no_page, [])) =
     Some (JsError ''Error''
       (''Error while copying files: Error: ENOENT: no such file or directory, open '' @
        [CHR 0x27] @ ''/proj/src/page.css'' @ [CHR 0x27])) \<and>
   fst (snd (generateBundle demo_host (demo_options False False []) demo_two demo_out
          [(''/proj/src/page.css'', ''bkEmBgPx.css''), (''/proj/src/logo.png'', ''SjafTEhN.png'')]
          (demo_fs_no_page, []))) ''/proj/dist/SjafTEhN.png'' = Some ''logo''"
proof -
  have out: "outputFolder demo_host demo_out = Inr ''/proj/dist''"
    by code_simp
  have log: "verbose (demo_options False False []) \<longrightarrow> root demo_two \<noteq> None"
    by (simp add: demo_options_def)
  have entry: "[(''/proj/src/page.css'', ''bkEmBgPx.css''), (''/proj/src/logo.png'', ''SjafTEhN.png'')] =
      [] @ (''/proj/src/page.css'', ''bkEmBgPx.css'') # [(''/proj/src/logo.png'', ''SjafTEhN.png'')]"
    by simp
  have before: "operateAll demo_host (demo_options False False []) ''/proj/dist'' []
      (fst (demo_fs_no_page, [])) = (None, demo_fs_no_page)"
    by simp
  have style: "map_of styleParser (path_extname demo_host ''/proj/src/page.css'') \<noteq> None"
    by code_simp
  have missing: "demo_fs_no_page ''/proj/src/page.css'' = None"
    by code_simp
  have fails: "operate demo_host (demo_options False False []) ''/proj/dist''
      (''/proj/src/page.css'', ''bkEmBgPx.css'') demo_fs_no_page =
      Inl (enoent ''open'' ''/proj/src/page.css'')"
    using style by (simp add: operate_def Let_def processStyle_def readFile_def missing)
  have msg: "''Error while copying files: '' @ error_toString (enoent ''open'' ''/proj/src/page.css'') =
      ''Error while copying files: Error: ENOENT: no such file or directory, open '' @
        [CHR 0x27] @ ''/proj/src/page.css'' @ [CHR 0x27]"
    by (simp add: enoent_def)
  have later: "snd (operateAll demo_host (demo_options False False []) ''/proj/dist''
      [(''/proj/src/logo.png'', ''SjafTEhN.png'')] demo_fs_no_page) ''/proj/dist/SjafTEhN.png'' =
      Some ''logo''"
    by code_simp
  from emit_failure [OF out log entry before fails] msg later show ?thesis
    by simp
qed

text \<open>The claim as stated fails: the error says the same, "Error while copying files",
  when the processing of a stylesheet failed as when a copy failed; no part of it tells the
  two stages apart.\<close>

theorem process_failure_reported_as_copying:
  "map_of styleParser (path_extname demo_host ''/proj/src/page.css'') \<noteq> None \<and>
   files demo_styled = [(''/proj/src/page.css'', ''bkEmBgPx.css'')] \<and>
   fst (generateBundle demo_host (demo_options False False []) demo_styled demo_out
          [(''/proj/src/page.css'', ''bkEmBgPx.css'')] (demo_fs_no_page, [])) =
     Some (JsError ''Error''
       (''Error while copying files: '' @ error_toString (enoent ''open'' ''/proj/src/page.css''))) \<and>
   map_of styleParser (path_extname demo_host ''/proj/src/logo.png'') = None \<and>
   files demo_registered = [(''/proj/src/logo.png'', ''SjafTEhN.png'')] \<and>
   fst (generateBundle demo_host (demo_options False False []) demo_registered demo_out
          [(''/proj/src/logo.png'', ''SjafTEhN.png'')] (demo_fs_no_logo, [])) =
     Some (JsError ''Error''
       (''Error while copying files: '' @ error_toString (enoent ''lstat'' ''/proj/src/logo.png'')))"
  by code_simp

subsection \<open>What depends on root\<close>

lemma register_files_root:
  "files (snd (register h opts src tgt (st\<lparr>root := r\<rparr>))) = files (snd (register h opts src tgt st))"
  by (simp add: register_def Let_def split: option.splits)

lemma resolveId_files_root:
  "files (snd (resolveId h opts fs importee importer (st\<lparr>root := r\<rparr>))) =
     files (snd (resolveId h opts fs importee importer st))"
proof -
  have upd: "\<And>l. st\<lparr>root := r, hashLog := l\<rparr> = st\<lparr>hashLog := l\<rparr>\<lparr>root := r\<rparr>"
    by simp
  show ?thesis
    by (simp add: resolveId_def entry_point_def upd register_files_root
        split: option.splits sum.splits)
qed

text \<open>
  Claim C8, as amended. Every call of \<^verbatim>\<open>resolveId\<close> without an importer sets \<^verbatim>\<open>root\<close> to
  the directory of the resolved importee. \<^verbatim>\<open>root\<close> is the first component of the asset id and
  so of the wrapper id that is returned and of the keys of \<^verbatim>\<open>assets\<close> and \<^verbatim>\<open>wrappers\<close>; the
  log lines use it too. What does not depend on it: for one call of \<^verbatim>\<open>resolveId\<close>, the
  \<^verbatim>\<open>files\<close> object after the call (the destination path of each source file) is the same
  for any two values of \<^verbatim>\<open>root\<close>; and for \<^verbatim>\<open>generateBundle\<close>, once a root is set, the
  outcome and every file written, with its content and its place, are the same for any
  other root.
\<close>

theorem root_only_in_ids:
  "files (snd (resolveId h opts fs importee importer (st\<lparr>root := Some r2\<rparr>))) =
     files (snd (resolveId h opts fs importee importer st)) \<and>
   (no_importer importer \<longrightarrow>
      root (snd (resolveId h opts fs importee importer st)) =
        Some (path_dirname h (path_resolve h [importee]))) \<and>
   (root st \<noteq> None \<longrightarrow>
      fst (generateBundle h opts (st\<lparr>root := Some r2\<rparr>) out order (fs2, console)) =
        fst (generateBundle h opts st out order (fs2, console)) \<and>
      fst (snd (generateBundle h opts (st\<lparr>root := Some r2\<rparr>) out order (fs2, console))) =
        fst (snd (generateBundle h opts st out order (fs2, console))))"
proof -
  have a: "files (snd (resolveId h opts fs importee importer (st\<lparr>root := Some r2\<rparr>))) =
           files (snd (resolveId h opts fs importee importer st))"
    by (rule resolveId_files_root)
  have b: "root (snd (resolveId h opts fs importee importer st)) =
             Some (path_dirname h (path_resolve h [importee]))" if "no_importer importer"
    using that by (simp add: resolveId_no_importer entry_point_def)
  have c: "fst (generateBundle h opts (st\<lparr>root := Some r2\<rparr>) out order (fs2, console)) =
          fst (generateBundle h opts st out order (fs2, console)) \<and>
        fst (snd (generateBundle h opts (st\<lparr>root := Some r2\<rparr>) out order (fs2, console))) =
          fst (snd (generateBundle h opts st out order (fs2, console)))" if "root st \<noteq> None"
  proof (cases "outputFolder h out")
    case (Inl e)
    then show ?thesis
      by (simp add: generateBundle_def)
  next
    case (Inr outFolder)
    have one: "verbose opts \<longrightarrow> root st \<noteq> None"
      using that by simp
    have two: "verbose opts \<longrightarrow> root (st\<lparr>root := Some r2\<rparr>) \<noteq> None"
      by simp
    have q1: "fst (announceAll h opts st outFolder (files st) console) = None"
      using one by (rule announceAll_ok)
    have q2: "fst (announceAll h opts (st\<lparr>root := Some r2\<rparr>) outFolder (files st) console) = None"
      using two by (rule announceAll_ok)
    have s1: "filter (started h opts st outFolder) order = order"
      using one by (simp add: started_iff)
    have s2: "filter (started h opts (st\<lparr>root := Some r2\<rparr>) outFolder) order = order"
      by (simp add: started_iff)
    show ?thesis
      by (simp add: generateBundle_def Inr Let_def q1 q2 s1 s2 first_error_def
          split: option.splits)
  qed
  from a b c show ?thesis
    by blast
qed

theorem root_only_in_ids_witness:
  "files (snd (resolveId demo_host (demo_options False False []) demo_fs ''./logo.png''
     (Some ''/proj/src/index.js'') (demo_start\<lparr>root := Some ''/elsewhere''\<rparr>))) =
     files (snd (resolveId demo_host (demo_options False False []) demo_fs ''./logo.png''
       (Some ''/proj/src/index.js'') demo_start)) \<and>
   root (snd (resolveId demo_host (demo_options False False []) demo_fs ''src/index.js'' None
     init_state)) = Some ''/proj/src'' \<and>
   fst (generateBundle demo_host ((demo_options False False [])\<lparr>verbose := True\<rparr>)
     (demo_two\<lparr>root := Some ''/elsewhere''\<rparr>) demo_out 
     [(''/proj/src/page.css'', ''bkEmBgPx.css''), (''/proj/src/logo.png'', ''SjafTEhN.png'')] (demo_fs, [])) =
     fst (generateBundle demo_host ((demo_options False False [])\<lparr>verbose := True\<rparr>)
       demo_two demo_out 
     [(''/proj/src/page.css'', ''bkEmBgPx.css''), (''/proj/src/logo.png'', ''SjafTEhN.png'')] (demo_fs, [])) \<and>
   fst (snd (generateBundle demo_host ((demo_options False False [])\<lparr>verbose := True\<rparr>)
     (demo_two\<lparr>root := Some ''/elsewhere''\<rparr>) demo_out 
     [(''/proj/src/page.css'', ''bkEmBgPx.css''), (''/proj/src/logo.png'', ''SjafTEhN.png'')] (demo_fs, []))) =
     fst (snd (generateBundle demo_host ((demo_options False False [])\<lparr>verbose := True\<rparr>)
       demo_two demo_out 
     [(''/proj/src/page.css'', ''bkEmBgPx.css''), (''/proj/src/logo.png'', ''SjafTEhN.png'')] (demo_fs, []))) \<and>
   snd (snd (generateBundle demo_host ((demo_options False False [])\<lparr>verbose := True\<rparr>)
     demo_two demo_out 
     [(''/proj/src/page.css'', ''bkEmBgPx.css''), (''/proj/src/logo.png'', ''SjafTEhN.png'')] (demo_fs, []))) =
     [''Copying logo.png => ../dist/SjafTEhN.png...'',
      ''Processing page.css => ../dist/bkEmBgPx.css...'']"
proof -
  have n: "no_importer None"
    by (simp add: no_importer_def)
  have r: "root demo_two \<noteq> None"
    by code_simp
  have d: "path_dirname demo_host (path_resolve demo_host [''src/index.js'']) = ''/proj/src''"
    by code_simp
  have l: "snd (snd (generateBundle demo_host ((demo_options False False [])\<lparr>verbose := True\<rparr>)
     demo_two demo_out 
     [(''/proj/src/page.css'', ''bkEmBgPx.css''), (''/proj/src/logo.png'', ''SjafTEhN.png'')] (demo_fs, []))) =
     [''Copying logo.png => ../dist/SjafTEhN.png...'',
      ''Processing page.css => ../dist/bkEmBgPx.css...'']"
    by code_simp
  from root_only_in_ids [where st = demo_start and ?r2.0 = "''/elsewhere''" and h = demo_host and
      opts = "demo_options False False []" and fs = demo_fs and importee = "''./logo.png''" and
      importer = "Some ''/proj/src/index.js''"]
    root_only_in_ids [where st = init_state and importer = None and h = demo_host and
      importee = "''src/index.js''" and opts = "demo_options False False []" and fs = demo_fs]
    root_only_in_ids [where st = demo_two and ?r2.0 = "''/elsewhere''" and h = demo_host and
      opts = "(demo_options False False [])\<lparr>verbose := True\<rparr>" and out = demo_out and
      order = "
     [(''/proj/src/page.css'', ''bkEmBgPx.css''), (''/proj/src/logo.png'', ''SjafTEhN.png'')]" and
      ?fs2.0 = demo_fs and console = "[]"]
    n r d l
  show ?thesis
    by simp
qed

text \<open>The claim as stated fails: with another root the same call returns another wrapper
  id and writes other keys into \<^verbatim>\<open>assets\<close> and \<^verbatim>\<open>wrappers\<close>.\<close>

theorem root_changes_ids:
  "resolveId demo_host (demo_options False False []) demo_fs ''./logo.png''
     (Some ''/proj/src/index.js'') (init_state\<lparr>root := Some ''/proj/src''\<rparr>) =
     (Inr (Handled ''/proj/src/SjafTEhN.png.js''),
      \<lparr>wrappers = [(''/proj/src/SjafTEhN.png.js'', ''/proj/src/SjafTEhN.png'')],
       assets = [(''/proj/src/SjafTEhN.png'', True)],
       files = [(''/proj/src/logo.png'', ''SjafTEhN.png'')],
       root = Some ''/proj/src'', hashLog = [''/proj/src/logo.png'']\<rparr>) \<and>
   resolveId demo_host (demo_options False False []) demo_fs ''./logo.png''
     (Some ''/proj/src/index.js'') (init_state\<lparr>root := Some ''/elsewhere''\<rparr>) =
     (Inr (Handled ''/elsewhere/SjafTEhN.png.js''),
      \<lparr>wrappers = [(''/elsewhere/SjafTEhN.png.js'', ''/elsewhere/SjafTEhN.png'')],
       assets = [(''/elsewhere/SjafTEhN.png'', True)],
       files = [(''/proj/src/logo.png'', ''SjafTEhN.png'')],
       root = Some ''/elsewhere'', hashLog = [''/proj/src/logo.png'']\<rparr>)"
  by code_simp

subsection \<open>Two source files, one destination\<close>

text \<open>Strings: a separator that neither side contains cuts a concatenation in one way.\<close>

lemma takeWhile_sep: "c \<notin> set a \<Longrightarrow> takeWhile (\<lambda>d. d \<noteq> c) (a @ c # x) = a"
  by (induction a) auto

lemma append_sep_eq:
  assumes "a @ c # x = b @ c # y" and "c \<notin> set a" and "c \<notin> set b"
  shows "a = b \<and> x = y"
proof -
  have "takeWhile (\<lambda>d. d \<noteq> c) (a @ c # x) = a"
    using assms(2) by (rule takeWhile_sep)
  moreover have "takeWhile (\<lambda>d. d \<noteq> c) (b @ c # y) = b"
    using assms(3) by (rule takeWhile_sep)
  ultimately have "a = b"
    using assms(1) by simp
  with assms(1) show ?thesis
    by simp
qed

lemma sep_append_eq:
  assumes "x @ c # a = y @ c # b" and "c \<notin> set a" and "c \<notin> set b"
  shows "a = b \<and> x = y"
proof -
  have "rev (x @ c # a) = rev (y @ c # b)"
    using assms(1) by (rule arg_cong)
  then have e: "rev a @ c # rev x = rev b @ c # rev y"
    by simp
  have "c \<notin> set (rev a)" and "c \<notin> set (rev b)"
    using assms(2,3) by simp_all
  with e have "rev a = rev b \<and> rev x = rev y"
    by (rule append_sep_eq)
  then show ?thesis
    by simp
qed

lemma hashed_target_inj:
  assumes eq: "(if keep then n1 @ ''~'' @ d1 @ CHR ''.'' # x1 else d1 @ CHR ''.'' # x1) =
               (if keep then n2 @ ''~'' @ d2 @ CHR ''.'' # x2 else d2 @ CHR ''.'' # x2)"
    and x: "CHR ''.'' \<notin> set x1" "CHR ''.'' \<notin> set x2"
    and dot: "CHR ''.'' \<notin> set d1" "CHR ''.'' \<notin> set d2"
    and tilde: "CHR ''~'' \<notin> set d1" "CHR ''~'' \<notin> set d2"
  shows "d1 = d2"
proof (cases keep)
  case False
  with eq have "d1 @ CHR ''.'' # x1 = d2 @ CHR ''.'' # x2"
    by simp
  from append_sep_eq [OF this dot] show ?thesis
    by (rule conjunct1)
next
  case True
  with eq have "(n1 @ ''~'' @ d1) @ CHR ''.'' # x1 = (n2 @ ''~'' @ d2) @ CHR ''.'' # x2"
    by simp
  from sep_append_eq [OF this x] have "n1 @ CHR ''~'' # d1 = n2 @ CHR ''~'' # d2"
    by simp
  from sep_append_eq [OF this tilde] show ?thesis
    by (rule conjunct1)
qed


lemma hashed_name_inj:
  assumes "hashed_name keep n1 d1 x1 = hashed_name keep n2 d2 x2"
    and "CHR ''.'' \<notin> set x1" "CHR ''.'' \<notin> set x2"
    and "digest_plain d1" "digest_plain d2"
  shows "d1 = d2"
  using assms hashed_target_inj [of keep n1 d1 x1 n2 d2 x2]
  by (simp add: hashed_name_def digest_plain_def)

lemma hashed_name_segment:
  assumes "digest_plain d" and "CHR ''/'' \<notin> set n" and "CHR ''/'' \<notin> set x"
  shows "segment (hashed_name keep n d x)"
proof (cases keep)
  case True
  have "CHR ''~'' \<in> set (hashed_name keep n d x)"
    using True by (simp add: hashed_name_def)
  moreover have "CHR ''~'' \<notin> set ''.''" and "CHR ''~'' \<notin> set ''..''"
    by simp_all
  ultimately have "hashed_name keep n d x \<noteq> ''.''" and "hashed_name keep n d x \<noteq> ''..''"
    by metis+
  then show ?thesis
    using assms True by (simp add: segment_def hashed_name_def digest_plain_def)
next
  case False
  from assms(1) obtain c cs where d: "d = c # cs" and c: "c \<noteq> CHR ''.''"
    by (cases d) (auto simp add: digest_plain_def)
  then show ?thesis
    using assms False by (simp add: segment_def hashed_name_def digest_plain_def)
qed

lemma fileExt_of_shaped:
  assumes "extname_shaped h" and "path_extname h importee \<noteq> []"
  shows "\<exists>x. fileExt_of h importee = CHR ''.'' # x \<and> CHR ''.'' \<notin> set x \<and> CHR ''/'' \<notin> set x"
proof (cases "path_extname h importee = ''.sss''")
  case True
  then have "fileExt_of h importee = CHR ''.'' # ''pcss''"
    by (simp add: fileExt_of_def)
  then show ?thesis
    by simp
next
  case False
  with assms show ?thesis
    by (auto simp add: fileExt_of_def extname_shaped_def)
qed

lemma resolveId_files_cases:
  assumes "\<not> skipHash opts"
  shows "files (snd (resolveId h opts fs importee importer st)) = files st \<or>
         (\<exists>imp bytes.
            path_extname h importee \<noteq> [] \<and> fs (fileSource_of h imp importee) = Some bytes \<and>
            files (snd (resolveId h opts fs importee importer st)) =
              AList.update (fileSource_of h imp importee)
                (path_join h [assetFolder opts,
                   if keepName opts
                   then fileName_of h importee @ ''~'' @ hash_bytes h bytes @ fileExt_of h importee
                   else hash_bytes h bytes @ fileExt_of h importee])
                (files st))"
  using assms
  by (auto simp add: resolveId_def entry_point_def register_def Let_def pathExists_def getHash_def
      split: option.splits sum.splits)

lemma resolveId_files_named:
  assumes hashing: "\<not> skipHash opts"
    and host: "extname_shaped h" "basename_plain h"
    and inv: "files_named h opts fs st"
  shows "files_named h opts fs (snd (resolveId h opts fs importee importer st))"
proof -
  from resolveId_files_cases [OF hashing, of h fs importee importer st]
  show ?thesis
  proof
    assume "files (snd (resolveId h opts fs importee importer st)) = files st"
    with inv show ?thesis
      by (simp add: files_named_def)
  next
    assume "\<exists>imp bytes.
            path_extname h importee \<noteq> [] \<and> fs (fileSource_of h imp importee) = Some bytes \<and>
            files (snd (resolveId h opts fs importee importer st)) =
              AList.update (fileSource_of h imp importee)
                (path_join h [assetFolder opts,
                   if keepName opts
                   then fileName_of h importee @ ''~'' @ hash_bytes h bytes @ fileExt_of h importee
                   else hash_bytes h bytes @ fileExt_of h importee])
                (files st)"
    then obtain imp bytes where
      ext: "path_extname h importee \<noteq> []" and
      bytes: "fs (fileSource_of h imp importee) = Some bytes" and
      upd: "files (snd (resolveId h opts fs importee importer st)) =
              AList.update (fileSource_of h imp importee)
                (path_join h [assetFolder opts,
                   if keepName opts
                   then fileName_of h importee @ ''~'' @ hash_bytes h bytes @ fileExt_of h importee
                   else hash_bytes h bytes @ fileExt_of h importee])
                (files st)"
      by blast
    from fileExt_of_shaped [OF host(1) ext] obtain x where
      x: "fileExt_of h importee = CHR ''.'' # x" "CHR ''.'' \<notin> set x" "CHR ''/'' \<notin> set x"
      by blast
    have n: "CHR ''/'' \<notin> set (fileName_of h importee)"
      using host(2) by (simp add: basename_plain_def fileName_of_def)
    have name: "(if keepName opts
                   then fileName_of h importee @ ''~'' @ hash_bytes h bytes @ fileExt_of h importee
                   else hash_bytes h bytes @ fileExt_of h importee) =
          hashed_name (keepName opts) (fileName_of h importee) (hash_bytes h bytes) x"
      by (simp add: hashed_name_def x(1))
    show ?thesis
      unfolding files_named_def
    proof
      fix entry
      assume "entry \<in> set (files (snd (resolveId h opts fs importee importer st)))"
      then have "entry = (fileSource_of h imp importee,
            path_join h [assetFolder opts,
              hashed_name (keepName opts) (fileName_of h importee) (hash_bytes h bytes) x]) \<or>
          entry \<in> set (files st)"
        using set_update_subset unfolding upd name by fastforce
      then show "\<exists>bytes n x.
          fs (fst entry) = Some bytes \<and> CHR ''/'' \<notin> set n \<and> CHR ''.'' \<notin> set x \<and>
          CHR ''/'' \<notin> set x \<and>
          snd entry =
            path_join h [assetFolder opts, hashed_name (keepName opts) n (hash_bytes h bytes) x]"
      proof
        assume "entry = (fileSource_of h imp importee,
            path_join h [assetFolder opts,
              hashed_name (keepName opts) (fileName_of h importee) (hash_bytes h bytes) x])"
        with bytes n x(2,3) show ?thesis
          by auto
      next
        assume "entry \<in> set (files st)"
        with inv show ?thesis
          by (simp add: files_named_def)
      qed
    qed
  qed
qed

lemma resolveAll_files_named:
  assumes hashing: "\<not> skipHash opts"
    and host: "extname_shaped h" "basename_plain h"
    and fixed: "\<forall>c \<in> set calls. fst c = fs"
    and inv: "files_named h opts fs st"
  shows "files_named h opts fs (resolveAll h opts calls st)"
  using fixed inv
proof (induction calls arbitrary: st)
  case Nil
  then show ?case by simp
next
  case (Cons c calls)
  obtain fs' importee importer where c: "c = (fs', importee, importer)"
    by (cases c) auto
  with Cons.prems(1) have fs': "fs' = fs"
    by simp
  have "files_named h opts fs (snd (resolveId h opts fs importee importer st))"
    using hashing host Cons.prems(2) by (rule resolveId_files_named)
  moreover have "\<forall>c \<in> set calls. fst c = fs"
    using Cons.prems(1) by simp
  ultimately show ?case
    unfolding c fs' resolveAll.simps by (rule Cons.IH [rotated])
qed

text \<open>The POSIX host of the examples has the three facts of the path functions.\<close>

lemma last_segment_plain:
  assumes "CHR ''/'' \<notin> set a"
  shows "last_segment a = a"
proof -
  have "takeWhile (\<lambda>c. c \<noteq> CHR ''/'') (rev a) = rev a"
    using assms by (auto simp add: takeWhile_eq_all_conv)
  then have "rev (takeWhile (\<lambda>c. c \<noteq> CHR ''/'') (rev a)) = rev (rev a)"
    by (rule arg_cong)
  then show ?thesis
    by (simp only: last_segment_def rev_rev_ident)
qed

lemma last_segment_no_slash: "CHR ''/'' \<notin> set (last_segment p)"
proof -
  have "CHR ''/'' \<notin> set (takeWhile (\<lambda>c. c \<noteq> CHR ''/'') (rev p))"
    by (auto dest: set_takeWhileD)
  then show ?thesis
    by (simp add: last_segment_def)
qed

lemma takeWhile_stop: "\<not> P c \<Longrightarrow> takeWhile P (xs @ c # ys) = takeWhile P xs"
  by (induction xs) auto

lemma last_segment_after_slash: "last_segment (u @ CHR ''/'' # t) = last_segment t"
  by (simp add: last_segment_def takeWhile_stop)

lemma segments_nonempty: "segments p \<noteq> []"
  by (induction p) (auto split: list.splits)

lemma segments_plain: "CHR ''/'' \<notin> set a \<Longrightarrow> segments a = [a]"
  by (induction a) (auto split: list.splits)

lemma segments_slash: "segments (f @ CHR ''/'' # a) = segments f @ segments a"
proof (induction f)
  case Nil
  show ?case by simp
next
  case (Cons c f)
  obtain s ss where "segments f = s # ss"
    using segments_nonempty [of f] by (cases "segments f") auto
  with Cons show ?case
    by simp
qed

lemma normalize_segments_last:
  assumes "segment a"
  shows "normalize_segments absolute acc (xs @ [a]) = normalize_segments absolute acc xs @ [a]"
  using assms
  by (induction xs arbitrary: acc) (auto simp add: segment_def split: list.splits)

lemma unsegments_last:
  assumes "CHR ''/'' \<notin> set a"
  shows "last_segment (unsegments (ys @ [a])) = a"
proof (induction ys)
  case Nil
  show ?case
    using assms by (simp add: last_segment_plain)
next
  case (Cons y ys)
  obtain z zs where z: "ys @ [a] = z # zs"
    by (cases "ys @ [a]") auto
  have "unsegments ((y # ys) @ [a]) = y @ CHR ''/'' # unsegments (ys @ [a])"
    by (simp add: z)
  with Cons show ?case
    by (simp add: last_segment_after_slash)
qed

lemma normalize_last:
  assumes a: "segment a" and p: "segments p = xs @ [a]"
  shows "last_segment (posix_normalize p) = a"
proof -
  have slash: "CHR ''/'' \<notin> set a" and nonempty: "a \<noteq> []"
    using a by (simp_all add: segment_def)
  have body: "last_segment (unsegments (normalize_segments absolute [] (segments p))) = a"
    for absolute
    using slash by (simp add: p normalize_segments_last [OF a] unsegments_last)
  show ?thesis
  proof (cases "take 1 p = ''/''")
    case True
    have "last_segment (CHR ''/'' # unsegments (normalize_segments True [] (segments p))) = a"
      using body [of True]
        last_segment_after_slash [of "[]" "unsegments (normalize_segments True [] (segments p))"]
      by simp
    with True show ?thesis
      by (simp add: posix_normalize_def Let_def)
  next
    case False
    have "unsegments (normalize_segments False [] (segments p)) \<noteq> []"
    proof
      assume "unsegments (normalize_segments False [] (segments p)) = []"
      with body [of False] have "last_segment [] = a"
        by simp
      with nonempty show False
        by (simp add: last_segment_def)
    qed
    with False body [of False] show ?thesis
      by (simp add: posix_normalize_def Let_def)
  qed
qed

lemma posix_join_last:
  assumes "segment a"
  shows "last_segment (posix_join [folder, a]) = a"
proof -
  have slash: "CHR ''/'' \<notin> set a" and nonempty: "a \<noteq> []"
    using assms by (simp_all add: segment_def)
  show ?thesis
  proof (cases "folder = []")
    case True
    have "segments a = [] @ [a]"
      using slash by (simp add: segments_plain)
    with assms have "last_segment (posix_normalize a) = a"
      by (rule normalize_last)
    with True nonempty show ?thesis
      by (simp add: posix_join_def)
  next
    case False
    have "segments (folder @ CHR ''/'' # a) = segments folder @ [a]"
      using slash by (simp add: segments_slash segments_plain)
    with assms have "last_segment (posix_normalize (folder @ CHR ''/'' # a)) = a"
      by (rule normalize_last)
    with False nonempty show ?thesis
      by (simp add: posix_join_def)
  qed
qed

lemma posix_join_injective: "join_injective (posix cwd) folder"
  unfolding join_injective_def
proof (intro allI impI)
  fix a b
  assume "segment a \<and> segment b \<and>
    path_join (posix cwd) [folder, a] = path_join (posix cwd) [folder, b]"
  then have a: "segment a" and b: "segment b" and
    eq: "posix_join [folder, a] = posix_join [folder, b]"
    by (simp_all add: posix_def)
  have "a = last_segment (posix_join [folder, a])"
    using a by (simp add: posix_join_last)
  also have "\<dots> = last_segment (posix_join [folder, b])"
    using eq by simp
  also have "\<dots> = b"
    using b by (simp add: posix_join_last)
  finally show "a = b" .
qed

lemma posix_extname_shaped: "extname_shaped (posix cwd)"
  unfolding extname_shaped_def
proof
  fix p
  let ?b = "last_segment p"
  let ?e = "rev (takeWhile (\<lambda>c. c \<noteq> CHR ''.'') (rev ?b))"
  have dot: "CHR ''.'' \<notin> set ?e"
    by (auto dest: set_takeWhileD)
  have "set ?e \<subseteq> set ?b"
    by (auto dest: set_takeWhileD)
  then have slash: "CHR ''/'' \<notin> set ?e"
    using last_segment_no_slash [of p] by blast
  have "posix_extname p = [] \<or> posix_extname p = CHR ''.'' # ?e"
    by (simp add: posix_extname_def Let_def)
  with dot slash
  show "path_extname (posix cwd) p = [] \<or>
    (\<exists>x. path_extname (posix cwd) p = CHR ''.'' # x \<and> CHR ''.'' \<notin> set x \<and> CHR ''/'' \<notin> set x)"
    by (auto simp add: posix_def)
qed

lemma posix_basename_plain: "basename_plain (posix cwd)"
  unfolding basename_plain_def
proof (intro allI)
  fix p e :: string
  have "set (take (length (last_segment p) - length e) (last_segment p)) \<subseteq> set (last_segment p)"
    by (rule set_take_subset)
  then have "CHR ''/'' \<notin> set (posix_basename p e)"
    using last_segment_no_slash [of p] by (auto simp add: posix_basename_def Let_def)
  then show "CHR ''/'' \<notin> set (path_basename (posix cwd) p e)"
    by (simp add: posix_def)
qed

text \<open>
  Claim C10, as amended. With hashing on, in a build during which the bytes of the files do
  not change, any two source files that are registered and whose digests differ have
  different destination output paths. (The host's path functions are as Node's, and the two
  digests are non-empty and contain no dot, tilde or separator.) Nothing keeps two source
  files apart when \<^verbatim>\<open>skipHash\<close> is set or when their bytes, and so their digests, are the
  same.
\<close>

theorem distinct_digests_distinct_destinations:
  assumes hashing: "\<not> skipHash opts"
    and host: "extname_shaped h" "basename_plain h" "join_injective h (assetFolder opts)"
    and fixed: "\<forall>c \<in> set calls. fst c = fs"
    and reg1: "map_of (files (resolveAll h opts calls init_state)) src1 = Some dst1"
    and reg2: "map_of (files (resolveAll h opts calls init_state)) src2 = Some dst2"
    and bytes: "fs src1 = Some bytes1" "fs src2 = Some bytes2"
    and plain: "digest_plain (hash_bytes h bytes1)" "digest_plain (hash_bytes h bytes2)"
    and digests: "hash_bytes h bytes1 \<noteq> hash_bytes h bytes2"
  shows "dst1 \<noteq> dst2"
proof
  assume same: "dst1 = dst2"
  have "files_named h opts fs init_state"
    by (simp add: files_named_def init_state_def)
  with hashing host(1,2) fixed
  have inv: "files_named h opts fs (resolveAll h opts calls init_state)"
    by (rule resolveAll_files_named)
  have "(src1, dst1) \<in> set (files (resolveAll h opts calls init_state))"
    using reg1 by (rule map_of_SomeD)
  with inv bytes(1) obtain n1 x1 where
    one: "CHR ''/'' \<notin> set n1" "CHR ''.'' \<notin> set x1" "CHR ''/'' \<notin> set x1"
      "dst1 = path_join h [assetFolder opts,
         hashed_name (keepName opts) n1 (hash_bytes h bytes1) x1]"
    by (fastforce simp add: files_named_def)
  have "(src2, dst2) \<in> set (files (resolveAll h opts calls init_state))"
    using reg2 by (rule map_of_SomeD)
  with inv bytes(2) obtain n2 x2 where
    two: "CHR ''/'' \<notin> set n2" "CHR ''.'' \<notin> set x2" "CHR ''/'' \<notin> set x2"
      "dst2 = path_join h [assetFolder opts,
         hashed_name (keepName opts) n2 (hash_bytes h bytes2) x2]"
    by (fastforce simp add: files_named_def)
  have s1: "segment (hashed_name (keepName opts) n1 (hash_bytes h bytes1) x1)"
    using plain(1) one(1,3) by (rule hashed_name_segment)
  have s2: "segment (hashed_name (keepName opts) n2 (hash_bytes h bytes2) x2)"
    using plain(2) two(1,3) by (rule hashed_name_segment)
  have "hashed_name (keepName opts) n1 (hash_bytes h bytes1) x1 =
        hashed_name (keepName opts) n2 (hash_bytes h bytes2) x2"
    using host(3) s1 s2 same one(4) two(4) unfolding join_injective_def by metis
  then have "hash_bytes h bytes1 = hash_bytes h bytes2"
    using one(2) two(2) plain by (rule hashed_name_inj)
  with digests show False
    by simp
qed

theorem distinct_digests_distinct_destinations_witness:
  "map_of (files (resolveAll demo_host (demo_options True False ''static'')
      [(demo_fs, ''src/index.js'', None), demo_logo, demo_icon] init_state))
      ''/proj/src/logo.png'' = Some ''static/logo~SjafTEhN.png'' \<and>
   map_of (files (resolveAll demo_host (demo_options True False ''static'')
      [(demo_fs, ''src/index.js'', None), demo_logo, demo_icon] init_state))
      ''/proj/src/img/icon.svg'' = Some ''static/icon~fXQovAhq.svg'' \<and>
   ''static/logo~SjafTEhN.png'' \<noteq> ''static/icon~fXQovAhq.svg''"
proof -
  let ?opts = "demo_options True False ''static''"
  let ?calls = "[(demo_fs, ''src/index.js'', None), demo_logo, demo_icon]"
  have hashing: "\<not> skipHash ?opts"
    by (simp add: demo_options_def)
  have host: "extname_shaped demo_host" "basename_plain demo_host"
    "join_injective demo_host (assetFolder ?opts)"
    by (simp_all add: demo_host_def posix_extname_shaped posix_basename_plain
        posix_join_injective)
  have fixed: "\<forall>c \<in> set ?calls. fst c = demo_fs"
    by (simp add: demo_logo_def demo_icon_def)
  have reg1: "map_of (files (resolveAll demo_host ?opts ?calls init_state))
      ''/proj/src/logo.png'' = Some ''static/logo~SjafTEhN.png''"
    by code_simp
  have reg2: "map_of (files (resolveAll demo_host ?opts ?calls init_state))
      ''/proj/src/img/icon.svg'' = Some ''static/icon~fXQovAhq.svg''"
    by code_simp
  have bytes: "demo_fs ''/proj/src/logo.png'' = Some ''logo''"
    "demo_fs ''/proj/src/img/icon.svg'' = Some ''icon''"
    by code_simp+
  have plain: "digest_plain (hash_bytes demo_host ''logo'')"
    "digest_plain (hash_bytes demo_host ''icon'')"
    by code_simp+
  have digests: "hash_bytes demo_host ''logo'' \<noteq> hash_bytes demo_host ''icon''"
    by code_simp
  from distinct_digests_distinct_destinations [OF hashing host fixed reg1 reg2 bytes plain digests]
    reg1 reg2
  show ?thesis
    by simp
qed

text \<open>The claim as stated fails. With \<^verbatim>\<open>skipHash\<close> two files of the same name in two
  directories, of different bytes, go to one destination; with the default options two
  files of the same bytes and extension do.\<close>

theorem destinations_collide:
  "files (resolveAll demo_host (demo_options False True [])
      [demo_logo, (demo_fs, ''./logo.png'', Some ''/proj/src/lib/util.js'')] demo_start) =
     [(''/proj/src/logo.png'', ''logo.png''), (''/proj/src/lib/logo.png'', ''logo.png'')] \<and>
   demo_fs ''/proj/src/logo.png'' = Some ''logo'' \<and>
   demo_fs ''/proj/src/lib/logo.png'' = Some ''other'' \<and>
   files (resolveAll demo_host (demo_options False False [])
      [demo_logo, (demo_fs, ''./img/brand.png'', Some ''/proj/src/index.js'')] demo_start) =
     [(''/proj/src/logo.png'', ''SjafTEhN.png''), (''/proj/src/img/brand.png'', ''SjafTEhN.png'')]"
  by code_simp

subsection \<open>Resolving a source file again\<close>




end
